theory Spec2Isabelle
  imports
    Main
    "HOL-Library.Char_ord"
    "HOL-Library.List_Lexorder"
    "HOL-Library.Multiset"
    "HOL-Library.AList"
begin

section \<open>Data model\<close>

text \<open>
  The entities of \<^verbatim>\<open>types.ts\<close> and of the two \<^verbatim>\<open>store.ts\<close> variants.
  Strings are byte lists; the order on strings is the lexicographic order on
  bytes, which is what SQLite's default \<^verbatim>\<open>BINARY\<close> collation compares.
  The two timestamps of a stored agent are ISO-8601 renderings of a JavaScript
  \<^verbatim>\<open>Date\<close>; the model keeps the underlying number of milliseconds since the
  epoch, of which \<^verbatim>\<open>toISOString\<close> is an injective image.
\<close>

record Owner =
  owner_name :: string
  contact :: "string option"

record Availability =
  timezone :: "string option"
  hours :: "string option"
  response_sla :: "string option"

datatype AccessMode = Open | Allowlist | Approval

record AccessControl =
  mode :: AccessMode
  allowlist :: "string list option"
  block :: "string list option"

record AgentCard =
  squadklaw :: string
  agent_id :: string
  name :: string
  description :: "string option"
  owner :: "Owner option"
  endpoint :: string
  public_key :: string
  capabilities :: "string list"
  intents :: "string list"
  availability :: "Availability option"
  access_control :: "AccessControl option"
  metadata :: "(string \<times> string) list option"

record StoredAgent =
  card :: AgentCard
  registered_at :: int
  expires_at :: int
  token_hash :: string

datatype ErrorCode =
    INVALID_MESSAGE
  | INVALID_SIGNATURE
  | INTENT_NOT_SUPPORTED
  | RATE_LIMITED
  | AGENT_UNAVAILABLE
  | CONVERSATION_CLOSED
  | UNAUTHORIZED
  | OWNER_REJECTED

text \<open>An error reply: the \<^verbatim>\<open>ErrorResponse\<close> body together with the HTTP status.\<close>

record ErrorReply =
  code :: ErrorCode
  message :: string
  retry :: bool
  status :: nat

text \<open>The parsed query of \<^verbatim>\<open>GET /v1/agents\<close> (\<^verbatim>\<open>DirectoryQuery\<close>).\<close>

record DirectoryQuery =
  capability :: "string option"
  intent :: "string option"
  q :: "string option"
  limit :: nat
  cursor :: "string option"

record SearchResult =
  agents :: "AgentCard list"
  next_cursor :: "string option"

section \<open>String helpers of the JavaScript runtime\<close>

text \<open>
  \<^verbatim>\<open>String.prototype.toLowerCase\<close>, on the ASCII letters (other bytes are kept),
  \<^verbatim>\<open>String.prototype.includes\<close> (here \<open>includes_str\<close>) and \<^verbatim>\<open>String.prototype.startsWith\<close>.
\<close>

definition lower_char :: "char \<Rightarrow> char" where
  "lower_char c =
     (if CHR ''A'' \<le> c \<and> c \<le> CHR ''Z'' then char_of (of_char c + (32::nat)) else c)"

definition toLowerCase :: "string \<Rightarrow> string" where
  "toLowerCase s = map lower_char s"

fun startsWith :: "string \<Rightarrow> string \<Rightarrow> bool" where
  "startsWith s [] = True"
| "startsWith [] (p # ps) = False"
| "startsWith (c # cs) (p # ps) = (c = p \<and> startsWith cs ps)"

fun includes_str :: "string \<Rightarrow> string \<Rightarrow> bool" where
  "includes_str [] p = (p = [])"
| "includes_str (c # cs) p = (startsWith (c # cs) p \<or> includes_str cs p)"

text \<open>JavaScript truthiness of an optional string: defined and not empty.\<close>

fun truthy :: "string option \<Rightarrow> bool" where
  "truthy None = False"
| "truthy (Some s) = (s \<noteq> [])"

section \<open>Search: the body shared by both stores\<close>

text \<open>
  \<^verbatim>\<open>AgentStore.search\<close> and \<^verbatim>\<open>searchAgents\<close> differ only in how the initial
  list of cards is obtained; from the first filter to the \<^verbatim>\<open>return\<close> their text
  is the same. \<open>search_cards\<close> is that common body, applied to the initial list.
  The cursor is the base64 encoding of an \<^verbatim>\<open>agent_id\<close>; the encoder
  (\<^verbatim>\<open>Buffer.from(s).toString("base64")\<close>) and the decoder
  (\<^verbatim>\<open>Buffer.from(c, "base64").toString()\<close>) belong to the runtime and are the
  parameters \<open>enc\<close> and \<open>dec\<close>.
\<close>

definition filter_capability :: "string option \<Rightarrow> AgentCard list \<Rightarrow> AgentCard list" where
  "filter_capability c results =
     (if truthy c then filter (\<lambda>a. the c \<in> set (capabilities a)) results else results)"

definition filter_intent :: "string option \<Rightarrow> AgentCard list \<Rightarrow> AgentCard list" where
  "filter_intent i results =
     (if truthy i then filter (\<lambda>a. the i \<in> set (intents a)) results else results)"

definition matches_q :: "string \<Rightarrow> AgentCard \<Rightarrow> bool" where
  "matches_q ql a =
     (includes_str (toLowerCase (name a)) ql \<or>
      (case description a of None \<Rightarrow> False | Some d \<Rightarrow> includes_str (toLowerCase d) ql))"

definition filter_q :: "string option \<Rightarrow> AgentCard list \<Rightarrow> AgentCard list" where
  "filter_q t results =
     (if truthy t then filter (matches_q (toLowerCase (the t))) results else results)"

definition apply_filters :: "DirectoryQuery \<Rightarrow> AgentCard list \<Rightarrow> AgentCard list" where
  "apply_filters query results =
     filter_q (q query) (filter_intent (intent query) (filter_capability (capability query) results))"

text \<open>\<^verbatim>\<open>Array.prototype.findIndex\<close>: the first index whose element satisfies the test.\<close>

fun findIndex :: "('a \<Rightarrow> bool) \<Rightarrow> 'a list \<Rightarrow> nat option" where
  "findIndex P [] = None"
| "findIndex P (x # xs) =
     (if P x then Some 0 else map_option Suc (findIndex P xs))"

definition apply_cursor ::
  "(string \<Rightarrow> string) \<Rightarrow> string option \<Rightarrow> AgentCard list \<Rightarrow> AgentCard list" where
  "apply_cursor dec c results =
     (if truthy c then
        (case findIndex (\<lambda>a. agent_id a = dec (the c)) results of
           None \<Rightarrow> results
         | Some idx \<Rightarrow> drop (idx + 1) results)
      else results)"

text \<open>
  The page and its cursor. When \<^verbatim>\<open>limit\<close> is 0 the page is empty and has the
  length \<^verbatim>\<open>limit\<close>, so the source reads \<^verbatim>\<open>page[-1].agent_id\<close> and throws a
  \<^verbatim>\<open>TypeError\<close>: the result is \<open>None\<close>. (The query schema admits 1 to 100 only.)
\<close>

definition page_of ::
  "(string \<Rightarrow> string) \<Rightarrow> nat \<Rightarrow> AgentCard list \<Rightarrow> SearchResult option" where
  "page_of enc lim results =
     (let page = take lim results in
      if length page = lim then
        (if page = [] then None
         else Some \<lparr>agents = page, next_cursor = Some (enc (agent_id (last page)))\<rparr>)
      else Some \<lparr>agents = page, next_cursor = None\<rparr>)"

definition search_cards ::
  "(string \<Rightarrow> string) \<Rightarrow> (string \<Rightarrow> string) \<Rightarrow> DirectoryQuery \<Rightarrow> AgentCard list
     \<Rightarrow> SearchResult option" where
  "search_cards enc dec query results =
     page_of enc (limit query) (apply_cursor dec (cursor query) (apply_filters query results))"

section \<open>The in-memory store (class AgentStore)\<close>

text \<open>
  A JavaScript \<^verbatim>\<open>Map\<close> iterates in insertion order, and \<^verbatim>\<open>set\<close> on a key that
  is present keeps the key's position: an association list with \<open>AList.update\<close>.
\<close>

type_synonym AgentStore = "(string \<times> StoredAgent) list"

definition put :: "AgentStore \<Rightarrow> StoredAgent \<Rightarrow> AgentStore" where
  "put s agent = AList.update (agent_id (card agent)) agent s"

definition get :: "AgentStore \<Rightarrow> string \<Rightarrow> StoredAgent option" where
  "get s agentId = map_of s agentId"

definition delete :: "AgentStore \<Rightarrow> string \<Rightarrow> AgentStore \<times> bool" where
  "delete s agentId = (AList.delete agentId s, agentId \<in> fst ` set s)"

definition search ::
  "(string \<Rightarrow> string) \<Rightarrow> (string \<Rightarrow> string) \<Rightarrow> AgentStore \<Rightarrow> DirectoryQuery
     \<Rightarrow> SearchResult option" where
  "search enc dec s query = search_cards enc dec query (map (\<lambda>e. card (snd e)) s)"

definition count :: "AgentStore \<Rightarrow> nat" where
  "count s = length s"

section \<open>The SQLite store\<close>

text \<open>
  The \<^verbatim>\<open>agents\<close> table is the list of its rows in rowid order, with primary key
  \<^verbatim>\<open>agent_id\<close>. The column \<^verbatim>\<open>card_json\<close> holds \<^verbatim>\<open>JSON.stringify(card)\<close> and every
  reader applies \<^verbatim>\<open>JSON.parse\<close> to it; a row of the model holds the card itself.
  \<^verbatim>\<open>INSERT OR REPLACE\<close> deletes the row with the same key and appends the new one.
  A \<^verbatim>\<open>SELECT\<close> without \<^verbatim>\<open>ORDER BY\<close> followed by \<^verbatim>\<open>.get\<close> reads the first
  matching row.
\<close>

record StoredMessage =
  row_id :: string
  conversation_id :: string
  from_agent :: string
  to_agent :: string
  row_intent :: string
  message_json :: string
  created_at :: int
  delivered :: nat

record Db =
  agents_table :: "StoredAgent list"
  messages_table :: "StoredMessage list"

definition row_key :: "StoredAgent \<Rightarrow> string" where
  "row_key r = agent_id (card r)"

definition putAgent :: "Db \<Rightarrow> StoredAgent \<Rightarrow> Db" where
  "putAgent db agent =
     db\<lparr>agents_table := filter (\<lambda>r. row_key r \<noteq> row_key agent) (agents_table db) @ [agent]\<rparr>"

definition getAgent :: "Db \<Rightarrow> string \<Rightarrow> StoredAgent option" where
  "getAgent db agentId = find (\<lambda>r. row_key r = agentId) (agents_table db)"

definition deleteAgent :: "Db \<Rightarrow> string \<Rightarrow> Db \<times> bool" where
  "deleteAgent db agentId =
     (db\<lparr>agents_table := filter (\<lambda>r. row_key r \<noteq> agentId) (agents_table db)\<rparr>,
      0 < length (filter (\<lambda>r. row_key r = agentId) (agents_table db)))"

definition searchAgents ::
  "(string \<Rightarrow> string) \<Rightarrow> (string \<Rightarrow> string) \<Rightarrow> Db \<Rightarrow> DirectoryQuery
     \<Rightarrow> SearchResult option" where
  "searchAgents enc dec db query =
     search_cards enc dec query (map card (sort_key row_key (agents_table db)))"

definition countAgents :: "Db \<Rightarrow> nat" where
  "countAgents db = length (agents_table db)"

definition getAgentByTokenHash :: "Db \<Rightarrow> string \<Rightarrow> StoredAgent option" where
  "getAgentByTokenHash db tokenHash = find (\<lambda>r. token_hash r = tokenHash) (agents_table db)"

section \<open>The relay queue (SQLite store)\<close>

text \<open>
  \<^verbatim>\<open>storeMessage\<close> is a plain \<^verbatim>\<open>INSERT\<close>: a row whose \<^verbatim>\<open>id\<close> is already present
  violates the primary key and the statement throws (\<open>None\<close>). The columns
  \<^verbatim>\<open>created_at\<close> and \<^verbatim>\<open>delivered\<close> take their defaults, the clock of the
  database and 0.
\<close>

record NewMessage =
  new_id :: string
  new_conversation_id :: string
  new_from_agent :: string
  new_to_agent :: string
  new_intent :: string
  new_message_json :: string

definition storeMessage :: "int \<Rightarrow> Db \<Rightarrow> NewMessage \<Rightarrow> Db option" where
  "storeMessage now db msg =
     (if new_id msg \<in> set (map row_id (messages_table db)) then None
      else Some (db\<lparr>messages_table := messages_table db @
             [\<lparr>row_id = new_id msg, conversation_id = new_conversation_id msg,
               from_agent = new_from_agent msg, to_agent = new_to_agent msg,
               row_intent = new_intent msg, message_json = new_message_json msg,
               created_at = now, delivered = 0\<rparr>]\<rparr>))"

definition getMessagesFor :: "Db \<Rightarrow> string \<Rightarrow> nat \<Rightarrow> StoredMessage list" where
  "getMessagesFor db agentId lim =
     take lim (sort_key created_at
       (filter (\<lambda>m. to_agent m = agentId \<and> delivered m = 0) (messages_table db)))"

definition getMessagesInConversation ::
  "Db \<Rightarrow> string \<Rightarrow> string \<Rightarrow> nat \<Rightarrow> StoredMessage list" where
  "getMessagesInConversation db conversationId agentId lim =
     take lim (sort_key created_at
       (filter (\<lambda>m. conversation_id m = conversationId \<and> to_agent m = agentId \<and> delivered m = 0)
          (messages_table db)))"

text \<open>
  \<^verbatim>\<open>UPDATE messages SET delivered = 1 WHERE id = ? AND to_agent = ?\<close>: every row
  that the \<^verbatim>\<open>WHERE\<close> clause selects is written and counted in \<^verbatim>\<open>changes\<close>,
  whatever its \<^verbatim>\<open>delivered\<close> column held before.
\<close>

definition ackMessage :: "Db \<Rightarrow> string \<Rightarrow> string \<Rightarrow> Db \<times> bool" where
  "ackMessage db messageId agentId =
     (db\<lparr>messages_table :=
          map (\<lambda>m. if row_id m = messageId \<and> to_agent m = agentId then m\<lparr>delivered := 1\<rparr> else m)
            (messages_table db)\<rparr>,
      0 < length (filter (\<lambda>m. row_id m = messageId \<and> to_agent m = agentId) (messages_table db)))"

definition ackAllMessages :: "Db \<Rightarrow> string \<Rightarrow> Db \<times> nat" where
  "ackAllMessages db agentId =
     (db\<lparr>messages_table :=
          map (\<lambda>m. if to_agent m = agentId \<and> delivered m = 0 then m\<lparr>delivered := 1\<rparr> else m)
            (messages_table db)\<rparr>,
      length (filter (\<lambda>m. to_agent m = agentId \<and> delivered m = 0) (messages_table db)))"

section \<open>The HTTP handlers\<close>

text \<open>
  A handler is a function from the state of the store and the parts of the request
  it reads to its reply and the new state. The request body enters as the outcome of
  \<^verbatim>\<open>c.req.json()\<close> followed by the schema's \<^verbatim>\<open>safeParse\<close>: not JSON, JSON with
  the listed issues, or the validated data. \<open>hashToken\<close> (SHA-256 in hexadecimal),
  the identifier generators (\<^verbatim>\<open>agentId()\<close>, \<^verbatim>\<open>generateId("relay_")\<close>, whose results
  are \<open>newId\<close>) and the clock (\<open>now\<close>) are parameters. A successful reply carries
  its HTTP status.
\<close>

datatype 'a Body = BadJson | Invalid "string list" | Valid 'a

fun join :: "string \<Rightarrow> string list \<Rightarrow> string" where
  "join sep [] = []"
| "join sep [x] = x"
| "join sep (x # y # ys) = x @ sep @ join sep (y # ys)"

definition err :: "ErrorCode \<Rightarrow> string \<Rightarrow> nat \<Rightarrow> ErrorReply" where
  "err c m st = \<lparr>code = c, message = m, retry = False, status = st\<rparr>"

text \<open>\<^verbatim>\<open>authHeader?.startsWith("Bearer ")\<close>, then \<^verbatim>\<open>authHeader.slice(7)\<close>.\<close>

definition bearer :: "string option \<Rightarrow> string option" where
  "bearer authHeader =
     (case authHeader of
        None \<Rightarrow> None
      | Some h \<Rightarrow> if startsWith h ''Bearer '' then Some (drop 7 h) else None)"

definition thirty_days :: int where
  "thirty_days = 30 * 24 * 60 * 60 * 1000"

record RegisterReply =
  reg_agent_id :: string
  reg_registered_at :: int
  reg_expires_at :: int

record UpdateReply =
  upd_agent_id :: string
  upd_expires_at :: int

subsection \<open>Directory on the in-memory store (server.ts)\<close>

definition mem_post_agents ::
  "(string \<Rightarrow> string) \<Rightarrow> string \<Rightarrow> int \<Rightarrow> AgentStore \<Rightarrow> string option \<Rightarrow> AgentCard Body
     \<Rightarrow> (ErrorReply + nat \<times> RegisterReply) \<times> AgentStore" where
  "mem_post_agents hashToken newId now store authHeader body =
     (case bearer authHeader of
        None \<Rightarrow> (Inl (err UNAUTHORIZED ''Missing bearer token'' 401), store)
      | Some token \<Rightarrow>
         (case body of
            BadJson \<Rightarrow> (Inl (err INVALID_MESSAGE ''Invalid JSON body'' 400), store)
          | Invalid issues \<Rightarrow>
              (Inl (err INVALID_MESSAGE (''Validation failed: '' @ join '', '' issues) 400), store)
          | Valid parsed \<Rightarrow>
              (let c = parsed\<lparr>agent_id := newId\<rparr>;
                   expires = now + thirty_days;
                   stored = \<lparr>card = c, registered_at = now, expires_at = expires,
                             token_hash = hashToken token\<rparr>
               in (Inr (201, \<lparr>reg_agent_id = newId, reg_registered_at = registered_at stored,
                              reg_expires_at = expires_at stored\<rparr>),
                   put store stored))))"

definition mem_get_agent :: "AgentStore \<Rightarrow> string \<Rightarrow> ErrorReply + nat \<times> AgentCard" where
  "mem_get_agent store i =
     (case get store i of
        None \<Rightarrow> Inl (err AGENT_UNAVAILABLE ''Agent not found'' 404)
      | Some stored \<Rightarrow> Inr (200, card stored))"

definition mem_put_agent ::
  "(string \<Rightarrow> string) \<Rightarrow> int \<Rightarrow> AgentStore \<Rightarrow> string \<Rightarrow> string option \<Rightarrow> AgentCard Body
     \<Rightarrow> (ErrorReply + nat \<times> UpdateReply) \<times> AgentStore" where
  "mem_put_agent hashToken now store i authHeader body =
     (case bearer authHeader of
        None \<Rightarrow> (Inl (err UNAUTHORIZED ''Missing bearer token'' 401), store)
      | Some token \<Rightarrow>
         (case get store i of
            None \<Rightarrow> (Inl (err AGENT_UNAVAILABLE ''Agent not found'' 404), store)
          | Some stored \<Rightarrow>
              if token_hash stored \<noteq> hashToken token then
                (Inl (err UNAUTHORIZED ''Invalid token'' 403), store)
              else
                (case body of
                   BadJson \<Rightarrow> (Inl (err INVALID_MESSAGE ''Invalid JSON body'' 400), store)
                 | Invalid issues \<Rightarrow>
                     (Inl (err INVALID_MESSAGE (''Validation failed: '' @ join '', '' issues) 400),
                      store)
                 | Valid parsed \<Rightarrow>
                     (let c = parsed\<lparr>agent_id := i\<rparr>;
                          expires = now + thirty_days
                      in (Inr (200, \<lparr>upd_agent_id = i, upd_expires_at = expires\<rparr>),
                          put store \<lparr>card = c, registered_at = registered_at stored,
                                     expires_at = expires, token_hash = token_hash stored\<rparr>)))))"

definition mem_delete_agent ::
  "(string \<Rightarrow> string) \<Rightarrow> AgentStore \<Rightarrow> string \<Rightarrow> string option
     \<Rightarrow> (ErrorReply + nat) \<times> AgentStore" where
  "mem_delete_agent hashToken store i authHeader =
     (case bearer authHeader of
        None \<Rightarrow> (Inl (err UNAUTHORIZED ''Missing bearer token'' 401), store)
      | Some token \<Rightarrow>
         (case get store i of
            None \<Rightarrow> (Inl (err AGENT_UNAVAILABLE ''Agent not found'' 404), store)
          | Some stored \<Rightarrow>
              if token_hash stored \<noteq> hashToken token then
                (Inl (err UNAUTHORIZED ''Invalid token'' 403), store)
              else (Inr 204, fst (delete store i))))"

subsection \<open>Directory and relay on the SQLite store\<close>

definition post_agents ::
  "(string \<Rightarrow> string) \<Rightarrow> string \<Rightarrow> int \<Rightarrow> Db \<Rightarrow> string option \<Rightarrow> AgentCard Body
     \<Rightarrow> (ErrorReply + nat \<times> RegisterReply) \<times> Db" where
  "post_agents hashToken newId now db authHeader body =
     (case bearer authHeader of
        None \<Rightarrow> (Inl (err UNAUTHORIZED ''Missing bearer token'' 401), db)
      | Some token \<Rightarrow>
         (case body of
            BadJson \<Rightarrow> (Inl (err INVALID_MESSAGE ''Invalid JSON body'' 400), db)
          | Invalid issues \<Rightarrow>
              (Inl (err INVALID_MESSAGE (''Validation failed: '' @ join '', '' issues) 400), db)
          | Valid parsed \<Rightarrow>
              (let c = parsed\<lparr>agent_id := newId\<rparr>;
                   expires = now + thirty_days
               in (Inr (201, \<lparr>reg_agent_id = newId, reg_registered_at = now,
                              reg_expires_at = expires\<rparr>),
                   putAgent db \<lparr>card = c, registered_at = now, expires_at = expires,
                                token_hash = hashToken token\<rparr>))))"

definition get_agent :: "Db \<Rightarrow> string \<Rightarrow> ErrorReply + nat \<times> AgentCard" where
  "get_agent db i =
     (case getAgent db i of
        None \<Rightarrow> Inl (err AGENT_UNAVAILABLE ''Agent not found'' 404)
      | Some stored \<Rightarrow> Inr (200, card stored))"

definition put_agent ::
  "(string \<Rightarrow> string) \<Rightarrow> int \<Rightarrow> Db \<Rightarrow> string \<Rightarrow> string option \<Rightarrow> AgentCard Body
     \<Rightarrow> (ErrorReply + nat \<times> UpdateReply) \<times> Db" where
  "put_agent hashToken now db i authHeader body =
     (case bearer authHeader of
        None \<Rightarrow> (Inl (err UNAUTHORIZED ''Missing bearer token'' 401), db)
      | Some token \<Rightarrow>
         (case getAgent db i of
            None \<Rightarrow> (Inl (err AGENT_UNAVAILABLE ''Agent not found'' 404), db)
          | Some stored \<Rightarrow>
              if token_hash stored \<noteq> hashToken token then
                (Inl (err UNAUTHORIZED ''Invalid token'' 403), db)
              else
                (case body of
                   BadJson \<Rightarrow> (Inl (err INVALID_MESSAGE ''Invalid JSON body'' 400), db)
                 | Invalid issues \<Rightarrow>
                     (Inl (err INVALID_MESSAGE (''Validation failed: '' @ join '', '' issues) 400),
                      db)
                 | Valid parsed \<Rightarrow>
                     (let c = parsed\<lparr>agent_id := i\<rparr>;
                          expires = now + thirty_days
                      in (Inr (200, \<lparr>upd_agent_id = i, upd_expires_at = expires\<rparr>),
                          putAgent db \<lparr>card = c, registered_at = registered_at stored,
                                       expires_at = expires, token_hash = token_hash stored\<rparr>)))))"

definition delete_agent ::
  "(string \<Rightarrow> string) \<Rightarrow> Db \<Rightarrow> string \<Rightarrow> string option \<Rightarrow> (ErrorReply + nat) \<times> Db" where
  "delete_agent hashToken db i authHeader =
     (case bearer authHeader of
        None \<Rightarrow> (Inl (err UNAUTHORIZED ''Missing bearer token'' 401), db)
      | Some token \<Rightarrow>
         (case getAgent db i of
            None \<Rightarrow> (Inl (err AGENT_UNAVAILABLE ''Agent not found'' 404), db)
          | Some stored \<Rightarrow>
              if token_hash stored \<noteq> hashToken token then
                (Inl (err UNAUTHORIZED ''Invalid token'' 403), db)
              else (Inr 204, fst (deleteAgent db i))))"

text \<open>\<^verbatim>\<open>resolveAgent\<close>: the agent registered with the hash of the bearer token.\<close>

definition resolveAgent ::
  "(string \<Rightarrow> string) \<Rightarrow> Db \<Rightarrow> string option \<Rightarrow> (string \<times> string) option" where
  "resolveAgent hashToken db authHeader =
     (case bearer authHeader of
        None \<Rightarrow> None
      | Some token \<Rightarrow>
         (let tokenHash = hashToken token in
          case getAgentByTokenHash db tokenHash of
            None \<Rightarrow> None
          | Some agent \<Rightarrow> Some (agent_id (card agent), tokenHash)))"

text \<open>
  The validated message envelope (\<^verbatim>\<open>Message\<close>); the payload of a message is kept in
  its serialised form. \<open>body_json\<close> of a relay request is \<^verbatim>\<open>JSON.stringify(body)\<close>.
\<close>

record Message =
  msg_squadklaw :: string
  message_id :: string
  msg_conversation_id :: string
  msg_from :: string
  msg_to :: string
  timestamp :: string
  msg_intent :: string
  payload :: string
  signature :: string

record RelayReply =
  relay_id :: string
  relay_status :: string

text \<open>
  A reply of \<^verbatim>\<open>POST /v1/relay\<close>: an error reply, the exception of a failed
  \<^verbatim>\<open>INSERT\<close> that the handler does not catch, or the queued entry.
\<close>

datatype RelayOutcome = Refused ErrorReply | Thrown | Queued nat RelayReply

definition post_relay ::
  "(string \<Rightarrow> string) \<Rightarrow> string \<Rightarrow> int \<Rightarrow> Db \<Rightarrow> string option \<Rightarrow> Message Body \<Rightarrow> string
     \<Rightarrow> RelayOutcome \<times> Db" where
  "post_relay hashToken newId now db authHeader body body_json =
     (case resolveAgent hashToken db authHeader of
        None \<Rightarrow>
          (Refused (err UNAUTHORIZED ''Must be a registered agent to send messages'' 401), db)
      | Some auth \<Rightarrow>
         (case body of
            BadJson \<Rightarrow> (Refused (err INVALID_MESSAGE ''Invalid JSON body'' 400), db)
          | Invalid issues \<Rightarrow>
              (Refused (err INVALID_MESSAGE (''Invalid message: '' @ join '', '' issues) 400), db)
          | Valid msg \<Rightarrow>
              if msg_from msg \<noteq> fst auth then
                (Refused (err UNAUTHORIZED ''Token does not match sender'' 403), db)
              else
                (case getAgent db (msg_to msg) of
                   None \<Rightarrow>
                     (Refused (err AGENT_UNAVAILABLE ''Recipient agent not found'' 404), db)
                 | Some recipient \<Rightarrow>
                     (case storeMessage now db
                             \<lparr>new_id = newId, new_conversation_id = msg_conversation_id msg,
                              new_from_agent = msg_from msg, new_to_agent = msg_to msg,
                              new_intent = msg_intent msg, new_message_json = body_json\<rparr> of
                        None \<Rightarrow> (Thrown, db)
                      | Some db' \<Rightarrow>
                          (Queued 201 \<lparr>relay_id = newId, relay_status = ''queued''\<rparr>, db')))))"

definition post_relay_ack ::
  "(string \<Rightarrow> string) \<Rightarrow> Db \<Rightarrow> string option \<Rightarrow> string \<Rightarrow> (ErrorReply + nat \<times> string) \<times> Db" where
  "post_relay_ack hashToken db authHeader relayId =
     (case resolveAgent hashToken db authHeader of
        None \<Rightarrow> (Inl (err UNAUTHORIZED ''Unauthorized'' 401), db)
      | Some auth \<Rightarrow>
         (case ackMessage db relayId (fst auth) of
            (db', acked) \<Rightarrow>
              if \<not> acked then
                (Inl (err INVALID_MESSAGE ''Message not found or already acknowledged'' 404), db')
              else (Inr (200, ''acknowledged''), db')))"

section \<open>Paging through a search\<close>

text \<open>
  The client of the pagination contract: request a page, and while the reply carries a
  cursor, request the next page with that cursor. \<open>thread_pages n\<close> makes at most
  \<open>n\<close> requests and returns the pages in the order received; \<open>None\<close> when a request
  throws or when \<open>n\<close> requests did not reach a reply without cursor.
\<close>

fun thread_pages ::
  "nat \<Rightarrow> (DirectoryQuery \<Rightarrow> SearchResult option) \<Rightarrow> DirectoryQuery
     \<Rightarrow> AgentCard list list option" where
  "thread_pages 0 srch query = None"
| "thread_pages (Suc n) srch query =
     (case srch query of
        None \<Rightarrow> None
      | Some r \<Rightarrow>
         (case next_cursor r of
            None \<Rightarrow> Some [agents r]
          | Some c \<Rightarrow> map_option ((#) (agents r)) (thread_pages n srch (query\<lparr>cursor := Some c\<rparr>))))"

section \<open>Store invariants, cursor encodings and expiry\<close>

text \<open>
  The states of the two stores that their own operations produce: the keys of the
  \<^verbatim>\<open>Map\<close> are distinct and each entry is filed under the \<^verbatim>\<open>agent_id\<close> of its card;
  the primary key of the table is unique.
\<close>

definition store_ok :: "AgentStore \<Rightarrow> bool" where
  "store_ok s = (distinct (map fst s) \<and> list_all (\<lambda>e. agent_id (card (snd e)) = fst e) s)"

definition db_ok :: "Db \<Rightarrow> bool" where
  "db_ok db = distinct (map row_key (agents_table db))"

text \<open>
  What pagination needs of the cursor encoding, on the identifiers in use: decoding
  undoes encoding, and the encoding of an identifier is not the empty string.
\<close>

definition codec_ok :: "(string \<Rightarrow> string) \<Rightarrow> (string \<Rightarrow> string) \<Rightarrow> string list \<Rightarrow> bool" where
  "codec_ok enc dec ids = list_all (\<lambda>i. dec (enc i) = i \<and> enc i \<noteq> []) ids"

text \<open>Rewriting the expiry of every record, by an arbitrary function of the record.\<close>

definition restamp :: "(StoredAgent \<Rightarrow> int) \<Rightarrow> StoredAgent \<Rightarrow> StoredAgent" where
  "restamp f r = r\<lparr>expires_at := f r\<rparr>"

definition restamp_store :: "(StoredAgent \<Rightarrow> int) \<Rightarrow> AgentStore \<Rightarrow> AgentStore" where
  "restamp_store f s = map (\<lambda>e. (fst e, restamp f (snd e))) s"

definition restamp_db :: "(StoredAgent \<Rightarrow> int) \<Rightarrow> Db \<Rightarrow> Db" where
  "restamp_db f db = db\<lparr>agents_table := map (restamp f) (agents_table db)\<rparr>"

text \<open>A registration is expired at a time when its \<^verbatim>\<open>expires_at\<close> is not later.\<close>

definition expired :: "int \<Rightarrow> StoredAgent \<Rightarrow> bool" where
  "expired now r = (expires_at r \<le> now)"

section \<open>Base64 (RFC 4648), for concrete cursors\<close>

text \<open>
  The standard alphabet with padding, as \<^verbatim>\<open>Buffer\<close> produces it, and the decoding of
  what it produces. It instantiates \<open>enc\<close> and \<open>dec\<close> where a search is evaluated
  on concrete data.
\<close>

definition b64_alphabet :: string where
  "b64_alphabet = ''ABCDEFGHIJKLMNOPQRSTUVWXYZabcdefghijklmnopqrstuvwxyz0123456789+/''"

definition b64_char :: "nat \<Rightarrow> char" where
  "b64_char n = b64_alphabet ! n"

fun b64_encode_bytes :: "nat list \<Rightarrow> string" where
  "b64_encode_bytes [] = []"
| "b64_encode_bytes [a] =
     [b64_char (a div 4), b64_char ((a mod 4) * 16), CHR ''='', CHR ''='']"
| "b64_encode_bytes [a, b] =
     [b64_char (a div 4), b64_char ((a mod 4) * 16 + b div 16), b64_char ((b mod 16) * 4),
      CHR ''='']"
| "b64_encode_bytes (a # b # c # rest) =
     [b64_char (a div 4), b64_char ((a mod 4) * 16 + b div 16),
      b64_char ((b mod 16) * 4 + c div 64), b64_char (c mod 64)] @ b64_encode_bytes rest"

definition base64_encode :: "string \<Rightarrow> string" where
  "base64_encode s = b64_encode_bytes (map of_char s)"

definition b64_index :: "char \<Rightarrow> nat option" where
  "b64_index c = findIndex (\<lambda>x. x = c) b64_alphabet"

fun b64_decode_sextets :: "nat list \<Rightarrow> nat list" where
  "b64_decode_sextets (a # b # c # d # rest) =
     [a * 4 + b div 16, (b mod 16) * 16 + c div 4, (c mod 4) * 64 + d] @ b64_decode_sextets rest"
| "b64_decode_sextets [a, b, c] = [a * 4 + b div 16, (b mod 16) * 16 + c div 4]"
| "b64_decode_sextets [a, b] = [a * 4 + b div 16]"
| "b64_decode_sextets other = []"

definition base64_decode :: "string \<Rightarrow> string" where
  "base64_decode s =
     map char_of (b64_decode_sextets (List.map_filter b64_index (takeWhile (\<lambda>c. c \<noteq> CHR ''='') s)))"

text \<open>
  A stand-in for SHA-256 where a handler is evaluated on concrete data; like the digest
  it never returns its argument.
\<close>

definition demo_hash :: "string \<Rightarrow> string" where
  "demo_hash token = ''sha256:'' @ token"

section \<open>Canonicalization\<close>

text \<open>
  Modelled from the spec: \<^verbatim>\<open>canonicalize\<close> of \<^verbatim>\<open>crypto.ts\<close>, which is not among the
  sources (only its tests are). The spec's rules: (1) remove any field named
  \<^verbatim>\<open>signature\<close> at the top level before serializing; (2) object keys are sorted
  lexicographically at every nesting level, recursively; (3) sequence element order is
  preserved verbatim; (4) no insignificant whitespace in the output. The structured
  object is the tagged-value tree of the spec's design notes (object, array and scalar
  variants); an object lists its entries in insertion order. Numbers are the integers.
\<close>

datatype json =
    JNull
  | JBool bool
  | JNum int
  | JStr string
  | JArr "json list"
  | JObj "(string \<times> json) list"

fun sortKeys :: "json \<Rightarrow> json" where
  "sortKeys (JObj kvs) = JObj (sort_key fst (map (\<lambda>e. (fst e, sortKeys (snd e))) kvs))"
| "sortKeys (JArr xs) = JArr (map sortKeys xs)"
| "sortKeys v = v"

definition strip_signature :: "(string \<times> json) list \<Rightarrow> (string \<times> json) list" where
  "strip_signature kvs = filter (\<lambda>e. fst e \<noteq> ''signature'') kvs"

text \<open>The compact JSON text: no character between the tokens.\<close>

definition digit_char :: "nat \<Rightarrow> char" where
  "digit_char d = ''0123456789abcdef'' ! d"

fun show_nat :: "nat \<Rightarrow> string" where
  "show_nat n = (if n < 10 then [digit_char n] else show_nat (n div 10) @ [digit_char (n mod 10)])"

declare show_nat.simps [simp del]

definition show_int :: "int \<Rightarrow> string" where
  "show_int i = (if i < 0 then CHR ''-'' # show_nat (nat (- i)) else show_nat (nat i))"

definition escape_char :: "char \<Rightarrow> string" where
  "escape_char c =
     (if c = CHR 0x22 then [CHR 0x5C, CHR 0x22]
      else if c = CHR 0x5C then [CHR 0x5C, CHR 0x5C]
      else if c = CHR 0x08 then [CHR 0x5C, CHR ''b'']
      else if c = CHR 0x0C then [CHR 0x5C, CHR ''f'']
      else if c = CHR 0x0A then [CHR 0x5C, CHR ''n'']
      else if c = CHR 0x0D then [CHR 0x5C, CHR ''r'']
      else if c = CHR 0x09 then [CHR 0x5C, CHR ''t'']
      else if (of_char c :: nat) < 32 then
        [CHR 0x5C, CHR ''u'', CHR ''0'', CHR ''0'',
         digit_char (of_char c div 16), digit_char (of_char c mod 16)]
      else [c])"

definition quote :: "string \<Rightarrow> string" where
  "quote s = [CHR 0x22] @ concat (map escape_char s) @ [CHR 0x22]"

fun serialize :: "json \<Rightarrow> string" where
  "serialize JNull = ''null''"
| "serialize (JBool b) = (if b then ''true'' else ''false'')"
| "serialize (JNum n) = show_int n"
| "serialize (JStr s) = quote s"
| "serialize (JArr xs) = ''['' @ join '','' (map serialize xs) @ '']''"
| "serialize (JObj kvs) =
     ''{'' @ join '','' (map (\<lambda>e. quote (fst e) @ '':'' @ serialize (snd e)) kvs) @ ''}''"

definition canonical_form :: "(string \<times> json) list \<Rightarrow> json" where
  "canonical_form obj = sortKeys (JObj (strip_signature obj))"

definition canonicalize :: "(string \<times> json) list \<Rightarrow> string" where
  "canonicalize obj = serialize (canonical_form obj)"

text \<open>
  Two values hold the same key/value pairs: equal scalars, arrays that agree position
  by position, objects (with distinct keys, as every JavaScript object has) that bind
  the same keys to values that again hold the same pairs.
\<close>

inductive same_pairs :: "json \<Rightarrow> json \<Rightarrow> bool" where
  sp_null: "same_pairs JNull JNull"
| sp_bool: "same_pairs (JBool b) (JBool b)"
| sp_num: "same_pairs (JNum n) (JNum n)"
| sp_str: "same_pairs (JStr s) (JStr s)"
| sp_arr: "list_all2 same_pairs xs ys \<Longrightarrow> same_pairs (JArr xs) (JArr ys)"
| sp_obj: "distinct (map fst xs) \<Longrightarrow> distinct (map fst ys) \<Longrightarrow>
           (\<forall>k. rel_option same_pairs (map_of xs k) (map_of ys k)) \<Longrightarrow>
           same_pairs (JObj xs) (JObj ys)"

text \<open>The keys of every object inside a value are in ascending order.\<close>

fun keys_sorted :: "json \<Rightarrow> bool" where
  "keys_sorted (JObj kvs) = (sorted (map fst kvs) \<and> list_all (\<lambda>e. keys_sorted (snd e)) kvs)"
| "keys_sorted (JArr xs) = list_all keys_sorted xs"
| "keys_sorted v = True"

text \<open>The characters of the strings (keys and string values) inside a value.\<close>

fun string_chars :: "json \<Rightarrow> char set" where
  "string_chars (JStr s) = set s"
| "string_chars (JArr xs) = (\<Union>x \<in> set xs. string_chars x)"
| "string_chars (JObj kvs) = (\<Union>e \<in> set kvs. set (fst e) \<union> string_chars (snd e))"
| "string_chars v = {}"

definition whitespace :: "char set" where
  "whitespace = {CHR 0x20, CHR 0x09, CHR 0x0A, CHR 0x0D}"

section \<open>Concrete data\<close>

text \<open>
  A card shaped like \<^verbatim>\<open>validCard\<close> of the schema tests, a stored agent registered
  at time \<open>t\<close> with a bearer token, and a message from one agent to another.
\<close>

definition test_card :: "string \<Rightarrow> AgentCard" where
  "test_card i =
     \<lparr>squadklaw = ''0.1.0'', agent_id = i, name = ''Test Agent'', description = None,
      owner = None, endpoint = ''https://example.com/squadklaw'',
      public_key = ''test-public-key'', capabilities = [''scheduling''],
      intents = [''mesh.schedule''], availability = None, access_control = None,
      metadata = None\<rparr>"

definition test_agent :: "string \<Rightarrow> string \<Rightarrow> int \<Rightarrow> StoredAgent" where
  "test_agent i token t =
     \<lparr>card = test_card i, registered_at = t, expires_at = t + thirty_days,
      token_hash = demo_hash token\<rparr>"

definition test_message :: "string \<Rightarrow> string \<Rightarrow> Message" where
  "test_message sender recipient =
     \<lparr>msg_squadklaw = ''0.1.0'', message_id = ''msg_1'', msg_conversation_id = ''conv_1'',
      msg_from = sender, msg_to = recipient, timestamp = ''2026-03-19T10:30:00Z'',
      msg_intent = ''mesh.schedule'', payload = ''{}'', signature = ''sig''\<rparr>"

definition empty_db :: Db where
  "empty_db = \<lparr>agents_table = [], messages_table = []\<rparr>"

text \<open>Three registrations, in the order b, a, c, in each of the two stores.\<close>

definition test_store :: AgentStore where
  "test_store =
     put (put (put [] (test_agent ''sk_b'' ''tok-b'' 0)) (test_agent ''sk_a'' ''tok-a'' 0))
       (test_agent ''sk_c'' ''tok-c'' 0)"

definition test_db :: Db where
  "test_db =
     putAgent (putAgent (putAgent empty_db (test_agent ''sk_b'' ''tok-b'' 0))
       (test_agent ''sk_a'' ''tok-a'' 0)) (test_agent ''sk_c'' ''tok-c'' 0)"

definition test_query :: "nat \<Rightarrow> string option \<Rightarrow> DirectoryQuery" where
  "test_query n c =
     \<lparr>capability = Some ''scheduling'', intent = None, q = None, limit = n, cursor = c\<rparr>"

text \<open>
  The database after agent a has relayed a message to agent b at time 1000; the text
  of the body is elided.
\<close>

definition relay_db :: Db where
  "relay_db =
     snd (post_relay demo_hash ''relay_1'' 1000 test_db (Some ''Bearer tok-a'')
            (Valid (test_message ''sk_a'' ''sk_b'')) ''{...}'')"

section \<open>Lemmas on searching and paging\<close>

lemma findIndex_None: "findIndex P xs = None \<longleftrightarrow> (\<forall>x\<in>set xs. \<not> P x)"
  by (induction xs) auto

lemma findIndex_distinct:
  "distinct (map f xs) \<Longrightarrow> k < length xs \<Longrightarrow> findIndex (\<lambda>a. f a = f (xs ! k)) xs = Some k"
proof (induction xs arbitrary: k)
  case Nil
  then show ?case by simp
next
  case (Cons x xs)
  show ?case
  proof (cases k)
    case 0
    then show ?thesis by simp
  next
    case (Suc j)
    with Cons.prems have j: "j < length xs" and d: "distinct (map f xs)"
      and nx: "f x \<notin> f ` set xs" by auto
    from j have "xs ! j \<in> set xs" by simp
    with nx have "f x \<noteq> f (xs ! j)" by force
    with Cons.IH[OF d j] Suc show ?thesis by simp
  qed
qed

lemma apply_cursor_None: "apply_cursor dec None rs = rs"
  by (simp add: apply_cursor_def)

lemma apply_cursor_miss:
  "dec c \<notin> agent_id ` set rs \<Longrightarrow> apply_cursor dec (Some c) rs = rs"
proof -
  assume "dec c \<notin> agent_id ` set rs"
  then have "findIndex (\<lambda>a. agent_id a = dec c) rs = None"
    unfolding findIndex_None by (metis imageI)
  then show ?thesis by (simp add: apply_cursor_def)
qed

lemma apply_cursor_hit:
  assumes "distinct (map agent_id rs)" "k < length rs" "c \<noteq> []" "dec c = agent_id (rs ! k)"
  shows "apply_cursor dec (Some c) rs = drop (Suc k) rs"
  using findIndex_distinct[OF assms(1,2)] assms(3,4) by (simp add: apply_cursor_def)

lemma page_of_full:
  "0 < n \<Longrightarrow> n \<le> length xs \<Longrightarrow>
   page_of enc n xs = Some \<lparr>agents = take n xs, next_cursor = Some (enc (agent_id (xs ! (n - 1))))\<rparr>"
  by (cases xs) (auto simp: page_of_def Let_def last_conv_nth min_def)

lemma page_of_short:
  "length xs < n \<Longrightarrow> page_of enc n xs = Some \<lparr>agents = xs, next_cursor = None\<rparr>"
  by (simp add: page_of_def Let_def)

lemma thread_pages_core:
  assumes dist: "distinct (map agent_id rs)"
    and n: "0 < n"
    and codec: "codec_ok enc dec (map agent_id rs)"
    and srch: "\<And>c. srch (query\<lparr>cursor := c\<rparr>) = page_of enc n (apply_cursor dec c rs)"
  shows "k \<le> length rs \<Longrightarrow> length rs - k < fuel \<Longrightarrow>
         (k = 0 \<and> c = None) \<or> (0 < k \<and> c = Some (enc (agent_id (rs ! (k - 1))))) \<Longrightarrow>
         \<exists>pages. thread_pages fuel srch (query\<lparr>cursor := c\<rparr>) = Some pages \<and>
                 concat pages = drop k rs \<and> pages \<noteq> [] \<and>
                 (\<forall>p \<in> set (butlast pages). length p = n) \<and> length (last pages) < n"
proof (induction fuel arbitrary: k c)
  case 0
  then show ?case by simp
next
  case (Suc fuel)
  have cur: "apply_cursor dec c rs = drop k rs"
  proof (cases "k = 0")
    case True
    with Suc.prems show ?thesis by (simp add: apply_cursor_None)
  next
    case False
    with Suc.prems have c: "c = Some (enc (agent_id (rs ! (k - 1))))" and k1: "k - 1 < length rs"
      by auto
    from k1 have "agent_id (rs ! (k - 1)) \<in> set (map agent_id rs)" by simp
    with codec have "dec (enc (agent_id (rs ! (k - 1)))) = agent_id (rs ! (k - 1))"
      and "enc (agent_id (rs ! (k - 1))) \<noteq> []"
      by (auto simp: codec_ok_def list_all_iff)
    with apply_cursor_hit[OF dist k1] c False show ?thesis by simp
  qed
  show ?case
  proof (cases "k + n \<le> length rs")
    case True
    let ?c' = "Some (enc (agent_id (rs ! (k + n - 1))))"
    from True n have pg: "srch (query\<lparr>cursor := c\<rparr>) =
        Some \<lparr>agents = take n (drop k rs), next_cursor = ?c'\<rparr>"
      using page_of_full[of n "drop k rs" enc] by (simp add: srch cur add.commute)
    from True n Suc.prems have "k + n \<le> length rs" "length rs - (k + n) < fuel"
      "(k + n = 0 \<and> ?c' = None) \<or> (0 < k + n \<and> ?c' = Some (enc (agent_id (rs ! (k + n - 1)))))"
      by auto
    from Suc.IH[OF this] obtain pages where
      p: "thread_pages fuel srch (query\<lparr>cursor := ?c'\<rparr>) = Some pages"
        "concat pages = drop (k + n) rs" "pages \<noteq> []"
        "\<forall>p \<in> set (butlast pages). length p = n" "length (last pages) < n"
      by blast
    have "take n (drop k rs) @ drop (k + n) rs = drop k rs"
      by (metis add.commute append_take_drop_id drop_drop)
    with p pg True show ?thesis by (auto simp: add.commute)
  next
    case False
    with Suc.prems(1) have short: "length (drop k rs) < n" by simp
    then have "srch (query\<lparr>cursor := c\<rparr>) = Some \<lparr>agents = drop k rs, next_cursor = None\<rparr>"
      using page_of_short[of "drop k rs" n enc] by (simp add: srch cur)
    with short show ?thesis by simp
  qed
qed

lemma apply_filters_is_filter: "\<exists>P. \<forall>rs. apply_filters query rs = filter P rs"
proof -
  have c: "\<exists>P. \<forall>rs. filter_capability (capability query) rs = filter P rs"
    by (cases "truthy (capability query)")
       (auto simp: filter_capability_def intro: exI[of _ "\<lambda>_. True"])
  have i: "\<exists>P. \<forall>rs. filter_intent (intent query) rs = filter P rs"
    by (cases "truthy (intent query)")
       (auto simp: filter_intent_def intro: exI[of _ "\<lambda>_. True"])
  have t: "\<exists>P. \<forall>rs. filter_q (q query) rs = filter P rs"
    by (cases "truthy (q query)")
       (auto simp: filter_q_def intro: exI[of _ "\<lambda>_. True"])
  from c i t obtain P1 P2 P3 where
    "\<forall>rs. filter_capability (capability query) rs = filter P1 rs"
    "\<forall>rs. filter_intent (intent query) rs = filter P2 rs"
    "\<forall>rs. filter_q (q query) rs = filter P3 rs"
    by blast
  then have "\<forall>rs. apply_filters query rs = filter (\<lambda>a. P3 a \<and> P2 a \<and> P1 a) rs"
    by (simp add: apply_filters_def conj_commute conj_left_commute)
  then show ?thesis by blast
qed

lemma apply_filters_cursor: "apply_filters (query\<lparr>cursor := c\<rparr>) rs = apply_filters query rs"
  by (simp add: apply_filters_def)

lemma apply_filters_limit: "apply_filters (query\<lparr>limit := n\<rparr>) rs = apply_filters query rs"
  by (simp add: apply_filters_def)

lemma apply_filters_distinct:
  "distinct (map agent_id rs) \<Longrightarrow> distinct (map agent_id (apply_filters query rs))"
  using apply_filters_is_filter[of query] by (auto simp: distinct_map_filter)

lemma apply_filters_sorted:
  "sorted (map agent_id rs) \<Longrightarrow> sorted (map agent_id (apply_filters query rs))"
  using apply_filters_is_filter[of query] by (auto simp: sorted_filter)

lemma apply_filters_subset: "set (apply_filters query rs) \<subseteq> set rs"
  using apply_filters_is_filter[of query] by auto

lemma apply_filters_length: "length (apply_filters query rs) \<le> length rs"
  using apply_filters_is_filter[of query] by auto

lemma codec_ok_subset: "codec_ok enc dec ids \<Longrightarrow> set js \<subseteq> set ids \<Longrightarrow> codec_ok enc dec js"
  by (auto simp: codec_ok_def list_all_iff)

lemma search_cards_pagination:
  assumes dist: "distinct (map agent_id cards)"
    and codec: "codec_ok enc dec (map agent_id cards)"
    and lim: "0 < limit query"
    and big: "length cards < L" and fuel: "length cards < fuel"
  shows "\<exists>every pages.
           search_cards enc dec (query\<lparr>cursor := None, limit := L\<rparr>) cards
             = Some \<lparr>agents = every, next_cursor = None\<rparr> \<and>
           thread_pages fuel (\<lambda>qq. search_cards enc dec qq cards) (query\<lparr>cursor := None\<rparr>)
             = Some pages \<and>
           concat pages = every \<and> distinct (map agent_id (concat pages)) \<and>
           (\<forall>p \<in> set (butlast pages). length p = limit query) \<and>
           length (last pages) < limit query"
proof -
  let ?rs = "apply_filters query cards"
  have d: "distinct (map agent_id ?rs)" by (rule apply_filters_distinct[OF dist])
  have c: "codec_ok enc dec (map agent_id ?rs)"
    using apply_filters_subset[of query cards]
    by (intro codec_ok_subset[OF codec]) (simp add: image_mono)
  have len: "length ?rs \<le> length cards" by (rule apply_filters_length)
  have one: "search_cards enc dec (query\<lparr>cursor := None, limit := L\<rparr>) cards
      = Some \<lparr>agents = ?rs, next_cursor = None\<rparr>"
    using len big
    by (simp add: search_cards_def apply_filters_def apply_cursor_None page_of_short)
  have srch: "\<And>c. (\<lambda>qq. search_cards enc dec qq cards) (query\<lparr>cursor := c\<rparr>)
      = page_of enc (limit query) (apply_cursor dec c ?rs)"
    by (simp add: search_cards_def apply_filters_def)
  from len fuel have "0 \<le> length ?rs" "length ?rs - 0 < fuel"
    "(0 = (0::nat) \<and> (None::string option) = None) \<or>
     (0 < (0::nat) \<and> None = Some (enc (agent_id (?rs ! (0 - 1)))))"
    by auto
  from thread_pages_core[OF d lim c srch this]
  obtain pages where
    "thread_pages fuel (\<lambda>qq. search_cards enc dec qq cards) (query\<lparr>cursor := None\<rparr>) = Some pages"
    "concat pages = ?rs" "\<forall>p \<in> set (butlast pages). length p = limit query"
    "length (last pages) < limit query"
    by auto
  with one d show ?thesis by auto
qed

lemma page_of_shape:
  assumes "page_of enc n xs = Some r"
  shows "(length (agents r) < n \<longrightarrow> next_cursor r = None) \<and>
         (\<forall>c. next_cursor r = Some c \<longrightarrow>
            length (agents r) = n \<and> agents r \<noteq> [] \<and> c = enc (agent_id (last (agents r))))"
  using assms by (auto simp: page_of_def Let_def split: if_splits)

lemma store_listing_ids: "store_ok s \<Longrightarrow> map agent_id (map (\<lambda>e. card (snd e)) s) = map fst s"
  by (induction s) (auto simp: store_ok_def)

lemma db_listing_ids:
  "map agent_id (map card (sort_key row_key rows)) = map row_key (sort_key row_key rows)"
  by (simp add: row_key_def)

lemma db_listing_distinct:
  "distinct (map row_key rows) \<Longrightarrow> distinct (map row_key (sort_key row_key rows))"
proof -
  have "mset (map row_key (sort_key row_key rows)) = mset (map row_key rows)"
    by simp
  then show "distinct (map row_key rows) \<Longrightarrow> distinct (map row_key (sort_key row_key rows))"
    by (metis mset_eq_imp_distinct_iff)
qed

section \<open>Lemmas on canonicalization\<close>
lemma sort_key_unique:
  assumes d: "distinct (map f xs)" and s: "set xs = set ys" and d': "distinct (map f ys)"
  shows "sort_key f xs = sort_key f ys"
proof -
  have k: "map f (sort_key f xs) = map f (sort_key f ys)"
  proof (rule sorted_distinct_set_unique)
    show "sorted (map f (sort_key f xs))" "sorted (map f (sort_key f ys))" by simp_all
    show "distinct (map f (sort_key f xs))" using d
      by (metis mset_eq_imp_distinct_iff mset_map mset_sort)
    show "distinct (map f (sort_key f ys))" using d'
      by (metis mset_eq_imp_distinct_iff mset_map mset_sort)
    show "set (map f (sort_key f xs)) = set (map f (sort_key f ys))" using s by simp
  qed
  from d have "inj_on f (set xs)" by (simp add: distinct_map)
  with s have "inj_on f (set (sort_key f xs) \<union> set (sort_key f ys))" by simp
  with k show ?thesis by (simp add: inj_on_map_eq_map)
qed

lemma map_of_sorted_entries:
  "map_of (map (\<lambda>e. (fst e, g (snd e))) xs) k = map_option g (map_of xs k)"
  by (induction xs) auto

lemma same_pairs_sortKeys: "same_pairs a b \<Longrightarrow> sortKeys a = sortKeys b"
proof (induction rule: same_pairs.induct)
  case (sp_arr xs ys)
  then have "map sortKeys xs = map sortKeys ys"
    by (induction xs ys rule: list_all2_induct) auto
  then show ?case by simp
next
  case (sp_obj xs ys)
  let ?xs = "map (\<lambda>e. (fst e, sortKeys (snd e))) xs"
  let ?ys = "map (\<lambda>e. (fst e, sortKeys (snd e))) ys"
  have fx: "map fst ?xs = map fst xs" and fy: "map fst ?ys = map fst ys"
    by (simp_all add: comp_def)
  have "map_of ?xs k = map_of ?ys k" for k
  proof -
    from sp_obj.IH have "rel_option (\<lambda>x y. same_pairs x y \<and> sortKeys x = sortKeys y)
        (map_of xs k) (map_of ys k)" by blast
    then show ?thesis
      by (cases "map_of xs k"; cases "map_of ys k") (simp_all add: map_of_sorted_entries)
  qed
  then have meq: "map_of ?xs = map_of ?ys" by (rule ext)
  have dx: "distinct (map fst ?xs)" and dy: "distinct (map fst ?ys)"
    using sp_obj.hyps by (simp_all add: comp_def)
  have "set ?xs = set ?ys"
    using map_of_inject_set[OF dx dy] meq by blast
  with dx dy have "sort_key fst ?xs = sort_key fst ?ys"
    by (intro sort_key_unique)
  then show ?case by simp
qed simp_all

lemma keys_sorted_sortKeys: "keys_sorted (sortKeys v)"
proof (induction v)
  case (JArr xs)
  then show ?case by (simp add: list_all_iff)
next
  case (JObj kvs)
  have "keys_sorted (sortKeys (snd e))" if "e \<in> set kvs" for e
  proof -
    obtain k v where e: "e = (k, v)" by (rule prod.exhaust)
    with that JObj[of e v] show ?thesis by simp
  qed
  then show ?case
    by (auto simp: list_all_iff)
qed simp_all

lemma digit_char_not_ws: "d < 16 \<Longrightarrow> digit_char d \<notin> whitespace"
proof -
  assume "d < 16"
  then have "d \<in> {0, 1, 2, 3, 4, 5, 6, 7, 8, 9, 10, 11, 12, 13, 14, 15}" by simp arith
  then show ?thesis
    unfolding digit_char_def whitespace_def by (elim insertE emptyE) simp_all
qed

lemma show_nat_not_ws: "x \<in> set (show_nat n) \<Longrightarrow> x \<notin> whitespace"
proof (induction n rule: show_nat.induct)
  case (1 n)
  show ?case
  proof (cases "n < 10")
    case True
    with "1.prems" have "x = digit_char n" by (simp add: show_nat.simps[of n])
    with True show ?thesis by (simp add: digit_char_not_ws)
  next
    case False
    with "1.prems" have "x \<in> set (show_nat (n div 10)) \<or> x = digit_char (n mod 10)"
      by (auto simp: show_nat.simps[of n])
    with False "1.IH" show ?thesis
      by (auto simp: digit_char_not_ws)
  qed
qed

lemma show_int_not_ws: "x \<in> set (show_int i) \<Longrightarrow> x \<notin> whitespace"
  by (auto simp: show_int_def whitespace_def dest: show_nat_not_ws split: if_splits)

lemma escape_char_ws:
  assumes "x \<in> set (escape_char c)" "x \<in> whitespace"
  shows "x = c"
proof -
  have d: "digit_char (of_char c div 16) \<notin> whitespace" "digit_char (of_char c mod 16) \<notin> whitespace"
    if "(of_char c :: nat) < 32"
    using that by (auto intro!: digit_char_not_ws)
  from assms d show ?thesis
    by (auto simp: escape_char_def whitespace_def split: if_splits)
qed

lemma quote_ws: "x \<in> set (quote s) \<Longrightarrow> x \<in> whitespace \<Longrightarrow> x \<in> set s"
  by (auto simp: quote_def whitespace_def dest!: escape_char_ws[unfolded whitespace_def])

lemma set_join: "x \<in> set (join sep xs) \<Longrightarrow> x \<in> set sep \<or> (\<exists>y \<in> set xs. x \<in> set y)"
  by (induction sep xs rule: join.induct) auto

lemma punctuation_not_ws: "CHR '','' \<notin> whitespace" "CHR '':'' \<notin> whitespace"
  "CHR ''['' \<notin> whitespace" "CHR '']'' \<notin> whitespace"
  "CHR ''{'' \<notin> whitespace" "CHR ''}'' \<notin> whitespace"
  by (simp_all add: whitespace_def)

lemma serialize_ws: "x \<in> set (serialize v) \<Longrightarrow> x \<in> whitespace \<Longrightarrow> x \<in> string_chars v"
proof (induction v)
  case JNull
  then show ?case by (auto simp: whitespace_def)
next
  case (JBool b)
  then show ?case by (auto simp: whitespace_def split: if_splits)
next
  case (JNum n)
  then show ?case by (auto dest: show_int_not_ws)
next
  case (JStr s)
  then show ?case by (auto dest: quote_ws)
next
  case (JArr xs)
  from JArr.prems punctuation_not_ws have "x \<in> set (join '','' (map serialize xs))"
    by auto
  from set_join[OF this] JArr.prems(2) punctuation_not_ws
  obtain y where "y \<in> set xs" "x \<in> set (serialize y)"
    by auto
  with JArr.IH JArr.prems(2) show ?case by auto
next
  case (JObj kvs)
  from JObj.prems punctuation_not_ws have
    "x \<in> set (join '','' (map (\<lambda>e. quote (fst e) @ '':'' @ serialize (snd e)) kvs))"
    by auto
  from set_join[OF this] JObj.prems(2) punctuation_not_ws
  obtain e where e: "e \<in> set kvs" "x \<in> set (quote (fst e)) \<or> x \<in> set (serialize (snd e))"
    by auto
  obtain k w where kw: "e = (k, w)" by (rule prod.exhaust)
  from e kw JObj.IH[of e w] JObj.prems(2) quote_ws[of x k]
  have "x \<in> set k \<or> x \<in> string_chars w" by auto
  with e kw show ?case by force
qed

lemma string_chars_sortKeys: "string_chars (sortKeys v) = string_chars v"
proof (induction v)
  case (JObj kvs)
  have "string_chars (sortKeys (snd e)) = string_chars (snd e)" if "e \<in> set kvs" for e
  proof -
    obtain k w where "e = (k, w)" by (rule prod.exhaust)
    with that JObj[of e w] show ?thesis by simp
  qed
  then show ?case by simp
qed simp_all

lemma keys_sorted_fixed: "keys_sorted v \<Longrightarrow> sortKeys v = v"
proof (induction v)
  case (JArr xs)
  then show ?case by (simp add: list_all_iff map_idI)
next
  case (JObj kvs)
  have "sortKeys (snd e) = snd e" if "e \<in> set kvs" for e
  proof -
    obtain k w where "e = (k, w)" by (rule prod.exhaust)
    with that JObj.IH[of e w] JObj.prems show ?thesis by (auto simp: list_all_iff)
  qed
  then have "map (\<lambda>e. (fst e, sortKeys (snd e))) kvs = kvs"
    by (simp add: map_idI)
  with JObj.prems show ?case by (simp add: sort_key_id_if_sorted)
qed simp_all

section \<open>Lemmas on the stores and the handlers\<close>

text \<open>
Reading back what the stores hold after a write.
\<close>

lemma get_put_same: "get (put s a) (agent_id (card a)) = Some a"
  by (simp add: get_def put_def update_conv')

lemma get_put_other: "j \<noteq> agent_id (card a) \<Longrightarrow> get (put s a) j = get s j"
  by (simp add: get_def put_def update_conv')

lemma update_entries: "set (AList.update k v al) \<subseteq> insert (k, v) (set al)"
  by (induction al) auto

lemma store_ok_put: "store_ok s \<Longrightarrow> store_ok (put s a)"
  using update_entries[of "agent_id (card a)" a s]
  by (auto simp: store_ok_def put_def distinct_update list_all_iff)

lemma find_filter_implies:
  "(\<And>x. P x \<Longrightarrow> Q x) \<Longrightarrow> find P (filter Q xs) = find P xs"
  by (induction xs) auto

lemma find_append: "find P (xs @ ys) = (case find P xs of None \<Rightarrow> find P ys | Some x \<Rightarrow> Some x)"
  by (induction xs) auto

lemma find_filter_none: "(\<And>x. P x \<Longrightarrow> \<not> Q x) \<Longrightarrow> find P (filter Q xs) = None"
  by (induction xs) auto

lemma getAgent_putAgent_same: "getAgent (putAgent db a) (row_key a) = Some a"
  by (simp add: getAgent_def putAgent_def find_append find_filter_none)

lemma getAgent_putAgent_other: "j \<noteq> row_key a \<Longrightarrow> getAgent (putAgent db a) j = getAgent db j"
  by (simp add: getAgent_def putAgent_def find_append find_filter_implies split: option.splits)

lemma db_ok_putAgent: "db_ok db \<Longrightarrow> db_ok (putAgent db a)"
  by (auto simp: db_ok_def putAgent_def distinct_map_filter)

lemma putAgent_one_row:
  "filter (\<lambda>r. row_key r = row_key a) (agents_table (putAgent db a)) = [a]"
  by (simp add: putAgent_def)

lemma thirty_days_ms: "thirty_days = 2592000000"
  by (simp add: thirty_days_def)

text \<open>
Rewriting expiry stamps changes neither cards nor keys, so sorting, looking up and
listing commute with it.
\<close>

lemma restamp_keeps: "card (restamp f r) = card r" "row_key (restamp f r) = row_key r"
  by (simp_all add: restamp_def row_key_def)

lemma insort_key_map_same:
  "(\<And>x. k (g x) = k x) \<Longrightarrow> insort_key k (g x) (map g xs) = map g (insort_key k x xs)"
  by (induction xs) auto

lemma sort_key_map_same:
  "(\<And>x. k (g x) = k x) \<Longrightarrow> sort_key k (map g xs) = map g (sort_key k xs)"
  by (induction xs) (simp_all add: insort_key_map_same)

lemma find_map_same:
  "(\<And>x. P (g x) = P x) \<Longrightarrow> find P (map g xs) = map_option g (find P xs)"
  by (induction xs) auto

lemma map_of_restamp: "map_of (map (\<lambda>e. (fst e, g (snd e))) xs) k = map_option g (map_of xs k)"
  by (induction xs) auto

text \<open>
Every page of the SQLite store ascends in \<^verbatim>\<open>agent_id\<close>: the listing is sorted by
\<^verbatim>\<open>ORDER BY agent_id\<close>, and filtering, skipping to the cursor and cutting the page keep
the order.
\<close>

lemma searchAgents_sorted:
  assumes "searchAgents enc dec db query = Some r"
  shows "sorted (map agent_id (agents r))"
proof -
  let ?all = "map card (sort_key row_key (agents_table db))"
  let ?rs = "apply_filters query ?all"
  have e: "map agent_id ?all = map row_key (sort_key row_key (agents_table db))"
    by (rule db_listing_ids)
  have "sorted (map row_key (sort_key row_key (agents_table db)))"
    by (rule sorted_sort_key)
  then have "sorted (map agent_id ?all)" by (simp only: e)
  then have rs: "sorted (map agent_id ?rs)" by (rule apply_filters_sorted)
  have "sorted (map agent_id (apply_cursor dec (cursor query) ?rs))"
  proof (cases "findIndex (\<lambda>a. agent_id a = dec (the (cursor query))) ?rs")
    case None
    with rs show ?thesis by (simp add: apply_cursor_def)
  next
    case (Some idx)
    from rs have "sorted (drop (idx + 1) (map agent_id ?rs))" by (rule sorted_wrt_drop)
    with rs Some show ?thesis by (simp add: apply_cursor_def drop_map)
  qed
  then have "sorted (take (limit query) (map agent_id (apply_cursor dec (cursor query) ?rs)))"
    by (rule sorted_wrt_take)
  moreover from assms have "agents r = take (limit query) (apply_cursor dec (cursor query) ?rs)"
    by (auto simp: searchAgents_def search_cards_def page_of_def Let_def split: if_splits)
  ultimately show ?thesis by (simp add: take_map)
qed

text \<open>
The cursor of a page, read off the search of either store.
\<close>

lemma search_cards_shape:
  assumes "search_cards enc dec qq cards = Some r"
  shows "(length (agents r) < limit qq \<longrightarrow> next_cursor r = None) \<and>
         (\<forall>c. next_cursor r = Some c \<longrightarrow>
            length (agents r) = limit qq \<and> agents r \<noteq> [] \<and> c = enc (agent_id (last (agents r))))"
  using assms page_of_shape unfolding search_cards_def by blast

text \<open>
The only whitespace a quoted string can contain is the space character: tabs, line
feeds and carriage returns are escaped.
\<close>

lemma escape_char_space:
  assumes "x \<in> set (escape_char c)" "x \<in> whitespace"
  shows "x = CHR 0x20"
proof -
  have d: "digit_char (of_char c div 16) \<notin> whitespace" "digit_char (of_char c mod 16) \<notin> whitespace"
    if "(of_char c :: nat) < 32"
    using that by (auto intro!: digit_char_not_ws)
  from assms d show ?thesis
    by (auto simp: escape_char_def whitespace_def split: if_splits)
qed

lemma quote_space: "x \<in> set (quote s) \<Longrightarrow> x \<in> whitespace \<Longrightarrow> x = CHR 0x20"
  by (auto simp: quote_def whitespace_def dest!: escape_char_space[unfolded whitespace_def])

lemma serialize_space: "x \<in> set (serialize v) \<Longrightarrow> x \<in> whitespace \<Longrightarrow> x = CHR 0x20"
proof (induction v)
  case JNull
  then show ?case by (auto simp: whitespace_def)
next
  case (JBool b)
  then show ?case by (auto simp: whitespace_def split: if_splits)
next
  case (JNum n)
  then show ?case by (auto dest: show_int_not_ws)
next
  case (JStr s)
  then show ?case by (auto dest: quote_space)
next
  case (JArr xs)
  from JArr.prems punctuation_not_ws have "x \<in> set (join '','' (map serialize xs))"
    by auto
  from set_join[OF this] JArr.prems(2) punctuation_not_ws
  obtain y where "y \<in> set xs" "x \<in> set (serialize y)"
    by auto
  with JArr.IH JArr.prems(2) show ?case by auto
next
  case (JObj kvs)
  from JObj.prems punctuation_not_ws have
    "x \<in> set (join '','' (map (\<lambda>e. quote (fst e) @ '':'' @ serialize (snd e)) kvs))"
    by auto
  from set_join[OF this] JObj.prems(2) punctuation_not_ws
  obtain e where e: "e \<in> set kvs" "x \<in> set (quote (fst e)) \<or> x \<in> set (serialize (snd e))"
    by auto
  obtain k w where kw: "e = (k, w)" by (rule prod.exhaust)
  from e kw JObj.IH[of e w] JObj.prems(2) quote_space[of x k]
  show ?case by auto
qed

lemma map_of_strip:
  "map_of (strip_signature xs) k = (if k = ''signature'' then None else map_of xs k)"
  unfolding strip_signature_def by (induction xs) auto

lemma same_pairs_objD:
  assumes "same_pairs (JObj xs) (JObj ys)"
  shows "distinct (map fst xs) \<and> distinct (map fst ys) \<and>
         (\<forall>k. rel_option same_pairs (map_of xs k) (map_of ys k))"
  using assms by (cases rule: same_pairs.cases) auto

lemma same_pairs_strip:
  assumes "same_pairs (JObj xs) (JObj ys)"
  shows "same_pairs (JObj (strip_signature xs)) (JObj (strip_signature ys))"
proof (rule sp_obj)
  from same_pairs_objD[OF assms]
  have d: "distinct (map fst xs)" "distinct (map fst ys)"
    and r: "\<forall>k. rel_option same_pairs (map_of xs k) (map_of ys k)" by auto
  from d show "distinct (map fst (strip_signature xs))" "distinct (map fst (strip_signature ys))"
    by (simp_all add: strip_signature_def distinct_map_filter)
  from r show "\<forall>k. rel_option same_pairs (map_of (strip_signature xs) k)
                 (map_of (strip_signature ys) k)"
    by (simp add: map_of_strip)
qed

lemma canonical_form_entries:
  "\<exists>entries. canonical_form a = JObj entries \<and> ''signature'' \<notin> fst ` set entries \<and>
     fst ` set entries = fst ` set a - {''signature''}"
proof -
  let ?es = "sort_key fst (map (\<lambda>e. (fst e, sortKeys (snd e))) (strip_signature a))"
  have "canonical_form a = JObj ?es" by (simp add: canonical_form_def)
  moreover have "fst ` set ?es = fst ` set a - {''signature''}"
    by (force simp: strip_signature_def)
  ultimately show ?thesis by blast
qed

lemma string_chars_strip: "string_chars (JObj (strip_signature a)) \<subseteq> string_chars (JObj a)"
  by (auto simp: strip_signature_def)

lemma strip_signature_idem: "strip_signature (strip_signature a) = strip_signature a"
  by (simp add: strip_signature_def)

text \<open>
The four expectations of the repository's tests of \<^verbatim>\<open>canonicalize\<close>.
\<close>

lemma canonicalize_tests:
  "canonicalize [(''z'', JNum 1), (''a'', JNum 2), (''m'', JNum 3)] = ''{\"a\":2,\"m\":3,\"z\":1}''"
  "canonicalize [(''a'', JNum 1), (''signature'', JStr ''should-be-removed''), (''b'', JNum 2)]
     = ''{\"a\":1,\"b\":2}''"
  "canonicalize [(''b'', JObj [(''z'', JNum 1), (''a'', JNum 2)]), (''a'', JNum 1)]
     = ''{\"a\":1,\"b\":{\"a\":2,\"z\":1}}''"
  "canonicalize [(''arr'', JArr [JNum 3, JNum 1, JNum 2])] = ''{\"arr\":[3,1,2]}''"
  by code_simp+

text \<open>
  The invariants hold of the empty stores and are kept by every operation, so they hold
  of every state the servers reach.
\<close>

lemma store_ok_empty: "store_ok []"
  by (simp add: store_ok_def)

lemma store_ok_delete: "store_ok s \<Longrightarrow> store_ok (fst (delete s i))"
proof -
  assume ok: "store_ok s"
  have sub: "set (AList.delete i s) \<subseteq> set s" by (auto simp: AList.delete_eq)
  from ok have "distinct (map fst (AList.delete i s))"
    by (simp add: store_ok_def distinct_delete)
  moreover from ok sub have "list_all (\<lambda>e. agent_id (card (snd e)) = fst e) (AList.delete i s)"
    unfolding store_ok_def list_all_iff by blast
  ultimately show ?thesis by (simp add: store_ok_def delete_def)
qed

lemma db_ok_empty: "db_ok empty_db"
  by (simp add: db_ok_def empty_db_def)

lemma db_ok_deleteAgent: "db_ok db \<Longrightarrow> db_ok (fst (deleteAgent db i))"
  by (simp add: db_ok_def deleteAgent_def distinct_map_filter)

lemma db_ok_messages:
  "storeMessage now db m = Some db' \<Longrightarrow> db_ok db' = db_ok db"
  "db_ok (fst (ackMessage db messageId agentId)) = db_ok db"
  by (auto simp: storeMessage_def ackMessage_def db_ok_def split: if_splits)

text \<open>
  \<^verbatim>\<open>ackMessage\<close> does not look at \<^verbatim>\<open>delivered\<close>: repeated, it reports what it
  reported the first time.
\<close>

lemma ackMessage_again:
  "snd (ackMessage (fst (ackMessage db messageId agentId)) messageId agentId)
     = snd (ackMessage db messageId agentId)"
proof -
  have "length (filter (\<lambda>m. row_id m = messageId \<and> to_agent m = agentId)
          (map (\<lambda>m. if row_id m = messageId \<and> to_agent m = agentId then m\<lparr>delivered := 1\<rparr> else m) ms))
        = length (filter (\<lambda>m. row_id m = messageId \<and> to_agent m = agentId) ms)"
    for ms :: "StoredMessage list"
    by (induction ms) auto
  then show ?thesis by (simp add: ackMessage_def del: length_greater_0_conv)
qed

section \<open>Lemmas on Base64\<close>

text \<open>
  Decoding undoes encoding on every string, and only the empty string has an empty
  encoding: the encoding meets what pagination needs on any list of nonempty
  identifiers.
\<close>

lemma b64_table: "list_all (\<lambda>n. b64_index (b64_char n) = Some n \<and> b64_char n \<noteq> CHR ''='') [0..<64]"
  by code_simp

lemma b64_index_char: "n < 64 \<Longrightarrow> b64_index (b64_char n) = Some n"
  using b64_table by (simp add: list_all_iff)

lemma b64_char_not_pad: "n < 64 \<Longrightarrow> b64_char n \<noteq> CHR ''=''"
  using b64_table by (simp add: list_all_iff)

lemma b64_step:
  "n < 64 \<Longrightarrow> List.map_filter b64_index (takeWhile (\<lambda>c. c \<noteq> CHR ''='') (b64_char n # cs))
     = n # List.map_filter b64_index (takeWhile (\<lambda>c. c \<noteq> CHR ''='') cs)"
  by (simp add: b64_index_char b64_char_not_pad List.map_filter_simps)

lemma b64_pad:
  "List.map_filter b64_index (takeWhile (\<lambda>c. c \<noteq> CHR ''='') (CHR ''='' # cs)) = []"
  by (simp add: List.map_filter_simps)

lemma b64_ar1: "(b::nat) < 256 \<Longrightarrow> (a mod 4 * 16 + b div 16) div 16 = a mod 4"
  by simp

lemma b64_ar2: "(b::nat) < 256 \<Longrightarrow> (a mod 4 * 16 + b div 16) mod 16 = b div 16"
  by simp

lemma b64_ar3: "(c::nat) < 256 \<Longrightarrow> (b mod 16 * 4 + c div 64) div 4 = b mod 16"
  by simp

lemma b64_ar4: "(c::nat) < 256 \<Longrightarrow> (b mod 16 * 4 + c div 64) mod 4 = c div 64"
  by simp

lemma b64_ar5: "(a::nat) < 256 \<Longrightarrow> a div 4 < 64" by simp
lemma b64_ar6: "(b::nat) < 256 \<Longrightarrow> (a mod 4) * 16 + b div 16 < 64" 
proof -
  assume "b < 256" then have "b div 16 < 16" by simp
  moreover have "a mod 4 < 4" by simp
  ultimately show ?thesis by linarith
qed
lemma b64_ar7: "(c::nat) < 256 \<Longrightarrow> (b mod 16) * 4 + c div 64 < 64"
proof -
  assume "c < 256" then have "c div 64 < 4" by simp
  moreover have "b mod 16 < 16" by simp
  ultimately show ?thesis by linarith
qed
lemma b64_ar8: "(a div 4) * 4 + a mod 4 = (a::nat)" by simp
lemma b64_ar9: "(b div 16) * 16 + b mod 16 = (b::nat)" by simp
lemma b64_ar10: "(c div 64) * 64 + c mod 64 = (c::nat)" by simp

lemma b64_bytes_roundtrip:
  "\<forall>b \<in> set bs. b < 256 \<Longrightarrow>
   b64_decode_sextets (List.map_filter b64_index
       (takeWhile (\<lambda>c. c \<noteq> CHR ''='') (b64_encode_bytes bs))) = bs"
proof (induction bs rule: b64_encode_bytes.induct)
  case 1
  then show ?case by (simp add: List.map_filter_simps)
next
  case (2 a)
  then have a: "a < 256" by simp
  then have s1: "a div 4 < 64" and s2: "(a mod 4) * 16 < 64" by arith+
  have "List.map_filter b64_index (takeWhile (\<lambda>c. c \<noteq> CHR ''='') (b64_encode_bytes [a]))
      = [a div 4, (a mod 4) * 16]"
    by (simp only: b64_encode_bytes.simps b64_step[OF s1] b64_step[OF s2] b64_pad)
  then show ?case by simp
next
  case (3 a b)
  then have a: "a < 256" and b: "b < 256" by simp_all
  have s3: "(b mod 16) * 4 < 64" by simp
  have "List.map_filter b64_index (takeWhile (\<lambda>c. c \<noteq> CHR ''='') (b64_encode_bytes [a, b]))
      = [a div 4, (a mod 4) * 16 + b div 16, (b mod 16) * 4]"
    by (simp only: b64_encode_bytes.simps b64_step[OF b64_ar5[OF a]]
        b64_step[OF b64_ar6[OF b]] b64_step[OF s3] b64_pad)
  then show ?case
    by (simp only: b64_decode_sextets.simps b64_ar1[OF b] b64_ar2[OF b] b64_ar8 b64_ar9) simp
next
  case (4 a b c rest)
  then have a: "a < 256" and b: "b < 256" and c: "c < 256" by simp_all
  have s4: "c mod 64 < 64" by simp
  from 4 have ih: "b64_decode_sextets (List.map_filter b64_index
       (takeWhile (\<lambda>c. c \<noteq> CHR ''='') (b64_encode_bytes rest))) = rest" by simp
  have "List.map_filter b64_index
          (takeWhile (\<lambda>c. c \<noteq> CHR ''='') (b64_encode_bytes (a # b # c # rest)))
      = a div 4 # ((a mod 4) * 16 + b div 16) # ((b mod 16) * 4 + c div 64) # (c mod 64) #
        List.map_filter b64_index (takeWhile (\<lambda>c. c \<noteq> CHR ''='') (b64_encode_bytes rest))"
    by (simp only: b64_encode_bytes.simps append.simps b64_step[OF b64_ar5[OF a]]
        b64_step[OF b64_ar6[OF b]] b64_step[OF b64_ar7[OF c]] b64_step[OF s4])
  then show ?case
    by (simp only: b64_decode_sextets.simps ih b64_ar1[OF b] b64_ar2[OF b] b64_ar3[OF c]
        b64_ar4[OF c] b64_ar8 b64_ar9 b64_ar10 append.simps)
qed

lemma base64_roundtrip: "base64_decode (base64_encode s) = s"
proof -
  have "\<forall>b \<in> set (map of_char s :: nat list). b < 256" by auto
  then show ?thesis
    by (simp add: base64_decode_def base64_encode_def b64_bytes_roundtrip comp_def)
qed

lemma base64_nonempty: "s \<noteq> [] \<Longrightarrow> base64_encode s \<noteq> []"
  by (cases "map of_char s :: nat list" rule: b64_encode_bytes.cases)
     (auto simp: base64_encode_def)

lemma base64_codec_ok: "[] \<notin> set ids \<Longrightarrow> codec_ok base64_encode base64_decode ids"
proof -
  assume "[] \<notin> set ids"
  then have "\<forall>i \<in> set ids. i \<noteq> []" by metis
  then show ?thesis
    by (simp add: codec_ok_def list_all_iff base64_roundtrip base64_nonempty)
qed

section \<open>The claims\<close>

text \<open>
  C1. Two objects that hold the same key/value pairs, in whatever order their keys
  were inserted at any level, have the same canonical text. A top-level
  \<^verbatim>\<open>signature\<close> field is removed before serializing: adding one does not change the
  text, and the canonical form has every other top-level key and no
  \<^verbatim>\<open>signature\<close>. The keys of every object of the canonical form, at every nesting
  level, are in ascending order. An array keeps its length and the order of its
  elements (element by element it is the canonical form of the element, and an array of
  scalars is unchanged), and is written in that order. The text has no whitespace
  between its tokens: a whitespace character of the text is a space that occurs in a
  string of the object.
\<close>

theorem canonicalize_deterministic:
  "(same_pairs (JObj a) (JObj b) \<longrightarrow> canonicalize a = canonicalize b) \<and>
   canonicalize ((''signature'', v) # a) = canonicalize a \<and>
   canonicalize (strip_signature a) = canonicalize a \<and>
   (\<exists>entries. canonical_form a = JObj entries \<and> ''signature'' \<notin> fst ` set entries \<and>
      fst ` set entries = fst ` set a - {''signature''}) \<and>
   keys_sorted (canonical_form a) \<and>
   sortKeys (JArr xs) = JArr (map sortKeys xs) \<and>
   (keys_sorted (JArr xs) \<longrightarrow> sortKeys (JArr xs) = JArr xs) \<and>
   serialize (JArr xs) = ''['' @ join '','' (map serialize xs) @ '']'' \<and>
   (\<forall>c \<in> set (canonicalize a). c \<in> whitespace \<longrightarrow> c = CHR 0x20 \<and> c \<in> string_chars (JObj a))"
proof -
  have 1: "same_pairs (JObj a) (JObj b) \<longrightarrow> canonicalize a = canonicalize b"
  proof
    assume "same_pairs (JObj a) (JObj b)"
    then have "same_pairs (JObj (strip_signature a)) (JObj (strip_signature b))"
      by (rule same_pairs_strip)
    then have "sortKeys (JObj (strip_signature a)) = sortKeys (JObj (strip_signature b))"
      by (rule same_pairs_sortKeys)
    then show "canonicalize a = canonicalize b"
      by (simp only: canonicalize_def canonical_form_def)
  qed
  have 2: "canonicalize ((''signature'', v) # a) = canonicalize a"
    by (simp add: canonicalize_def canonical_form_def strip_signature_def)
  have 3: "canonicalize (strip_signature a) = canonicalize a"
    by (simp only: canonicalize_def canonical_form_def strip_signature_idem)
  have 5: "keys_sorted (canonical_form a)"
    unfolding canonical_form_def by (rule keys_sorted_sortKeys)
  have 6: "sortKeys (JArr xs) = JArr (map sortKeys xs)" by simp
  have 7: "keys_sorted (JArr xs) \<longrightarrow> sortKeys (JArr xs) = JArr xs"
    using keys_sorted_fixed by blast
  have 8: "serialize (JArr xs) = ''['' @ join '','' (map serialize xs) @ '']''" by simp
  have 9: "\<forall>c \<in> set (canonicalize a). c \<in> whitespace \<longrightarrow>
             c = CHR 0x20 \<and> c \<in> string_chars (JObj a)"
  proof (intro ballI impI conjI)
    fix c assume c: "c \<in> set (canonicalize a)" "c \<in> whitespace"
    then show "c = CHR 0x20" unfolding canonicalize_def by (rule serialize_space)
    from c have "c \<in> string_chars (canonical_form a)"
      unfolding canonicalize_def by (rule serialize_ws)
    then have "c \<in> string_chars (JObj (strip_signature a))"
      by (simp only: canonical_form_def string_chars_sortKeys)
    with string_chars_strip show "c \<in> string_chars (JObj a)" by blast
  qed
  from 1 2 3 canonical_form_entries[of a] 5 6 7 8 9 show ?thesis by (intro conjI)
qed

theorem canonicalize_deterministic_witness:
  "same_pairs
     (JObj [(''z'', JNum 1), (''signature'', JStr ''should-be-removed''),
            (''b'', JObj [(''z'', JNum 1), (''a'', JNum 2)]),
            (''arr'', JArr [JNum 3, JNum 1, JNum 2])])
     (JObj [(''arr'', JArr [JNum 3, JNum 1, JNum 2]),
            (''b'', JObj [(''a'', JNum 2), (''z'', JNum 1)]),
            (''signature'', JStr ''should-be-removed''), (''z'', JNum 1)]) \<and>
   canonicalize [(''z'', JNum 1), (''signature'', JStr ''should-be-removed''),
            (''b'', JObj [(''z'', JNum 1), (''a'', JNum 2)]),
            (''arr'', JArr [JNum 3, JNum 1, JNum 2])]
     = canonicalize [(''arr'', JArr [JNum 3, JNum 1, JNum 2]),
            (''b'', JObj [(''a'', JNum 2), (''z'', JNum 1)]),
            (''signature'', JStr ''should-be-removed''), (''z'', JNum 1)] \<and>
   keys_sorted (JArr [JNum 3, JNum 1, JNum 2]) \<and>
   sortKeys (JArr [JNum 3, JNum 1, JNum 2]) = JArr [JNum 3, JNum 1, JNum 2] \<and>
   canonicalize [(''z'', JNum 1), (''signature'', JStr ''should-be-removed''),
            (''b'', JObj [(''z'', JNum 1), (''a'', JNum 2)]),
            (''arr'', JArr [JNum 3, JNum 1, JNum 2])]
     = ''{\"arr\":[3,1,2],\"b\":{\"a\":2,\"z\":1},\"z\":1}''"
proof -
  let ?a = "[(''z'', JNum 1), (''signature'', JStr ''should-be-removed''),
            (''b'', JObj [(''z'', JNum 1), (''a'', JNum 2)]),
            (''arr'', JArr [JNum 3, JNum 1, JNum 2])]"
  let ?b = "[(''arr'', JArr [JNum 3, JNum 1, JNum 2]),
            (''b'', JObj [(''a'', JNum 2), (''z'', JNum 1)]),
            (''signature'', JStr ''should-be-removed''), (''z'', JNum 1)]"
  have inner: "same_pairs (JObj [(''z'', JNum 1), (''a'', JNum 2)])
                 (JObj [(''a'', JNum 2), (''z'', JNum 1)])"
    by (rule sp_obj) (auto intro: same_pairs.intros)
  have arr: "same_pairs (JArr [JNum 3, JNum 1, JNum 2]) (JArr [JNum 3, JNum 1, JNum 2])"
    by (rule sp_arr) (auto intro: same_pairs.intros)
  have h: "same_pairs (JObj ?a) (JObj ?b)"
    by (rule sp_obj) (auto intro: same_pairs.intros inner arr)
  have k: "keys_sorted (JArr [JNum 3, JNum 1, JNum 2])" by simp
  have e: "canonicalize ?a = ''{\"arr\":[3,1,2],\"b\":{\"a\":2,\"z\":1},\"z\":1}''"
    by code_simp
  note t = canonicalize_deterministic[of ?a ?b _ "[JNum 3, JNum 1, JNum 2]"]
  from t h have c: "canonicalize ?a = canonicalize ?b" by blast
  from t k have s: "sortKeys (JArr [JNum 3, JNum 1, JNum 2]) = JArr [JNum 3, JNum 1, JNum 2]"
    by blast
  show ?thesis by (intro conjI h c k s e)
qed

text \<open>
  C2, as stated, fails: the registration of recipient b expired at 2592000000, the
  message is submitted at 3000000000, and the relay queues it.
\<close>

theorem post_relay_expired_recipient_counterexample:
  "getAgent test_db ''sk_b'' = Some (test_agent ''sk_b'' ''tok-b'' 0) \<and>
   expired 3000000000 (test_agent ''sk_b'' ''tok-b'' 0) \<and>
   fst (post_relay demo_hash ''relay_1'' 3000000000 test_db (Some ''Bearer tok-a'')
          (Valid (test_message ''sk_a'' ''sk_b'')) ''{...}'')
     = Queued 201 \<lparr>relay_id = ''relay_1'', relay_status = ''queued''\<rparr>"
  by code_simp

text \<open>
  C2, amended. A relay submission is queued only if the body is a valid message, the
  agent that the bearer token resolves to is \<^verbatim>\<open>message.from\<close> (otherwise the reply is
  \<^verbatim>\<open>UNAUTHORIZED\<close>, 403) and \<^verbatim>\<open>message.to\<close> has a record in the store, expired or not
  (otherwise the reply is \<^verbatim>\<open>AGENT_UNAVAILABLE\<close>, 404). When it is queued the reply is 201
  with the generated relay identifier, and the store gains exactly one entry, with that
  identifier and \<^verbatim>\<open>delivered = 0\<close>. Every other outcome leaves the store unchanged. With
  a relay identifier not yet in use, the three conditions suffice.
\<close>

theorem post_relay_enqueue:
  assumes "post_relay hashToken newId now db authHeader body body_json = (outcome, db')"
  shows "(\<forall>st reply. outcome = Queued st reply \<longrightarrow>
            st = 201 \<and> reply = \<lparr>relay_id = newId, relay_status = ''queued''\<rparr> \<and>
            (\<exists>msg auth recipient.
               body = Valid msg \<and> resolveAgent hashToken db authHeader = Some auth \<and>
               fst auth = msg_from msg \<and> getAgent db (msg_to msg) = Some recipient \<and>
               db' = db\<lparr>messages_table := messages_table db @
                        [\<lparr>row_id = newId, conversation_id = msg_conversation_id msg,
                          from_agent = msg_from msg, to_agent = msg_to msg,
                          row_intent = msg_intent msg, message_json = body_json,
                          created_at = now, delivered = 0\<rparr>]\<rparr>)) \<and>
         ((\<forall>st reply. outcome \<noteq> Queued st reply) \<longrightarrow> db' = db) \<and>
         (\<forall>msg auth. body = Valid msg \<and> resolveAgent hashToken db authHeader = Some auth \<and>
              fst auth \<noteq> msg_from msg \<longrightarrow>
            outcome = Refused (err UNAUTHORIZED ''Token does not match sender'' 403)) \<and>
         (\<forall>msg auth. body = Valid msg \<and> resolveAgent hashToken db authHeader = Some auth \<and>
              fst auth = msg_from msg \<and> getAgent db (msg_to msg) = None \<longrightarrow>
            outcome = Refused (err AGENT_UNAVAILABLE ''Recipient agent not found'' 404)) \<and>
         (\<forall>msg auth recipient.
              body = Valid msg \<and> resolveAgent hashToken db authHeader = Some auth \<and>
              fst auth = msg_from msg \<and> getAgent db (msg_to msg) = Some recipient \<and>
              newId \<notin> set (map row_id (messages_table db)) \<longrightarrow>
            outcome = Queued 201 \<lparr>relay_id = newId, relay_status = ''queued''\<rparr>)"
proof (cases "resolveAgent hashToken db authHeader")
  case None
  with assms show ?thesis by (auto simp: post_relay_def)
next
  case (Some auth)
  show ?thesis
  proof (cases body)
    case BadJson
    with Some assms show ?thesis by (auto simp: post_relay_def)
  next
    case (Invalid issues)
    with Some assms show ?thesis by (auto simp: post_relay_def)
  next
    case (Valid msg)
    show ?thesis
    proof (cases "msg_from msg = fst auth")
      case False
      with Some Valid assms show ?thesis by (auto simp: post_relay_def)
    next
      case True
      show ?thesis
      proof (cases "getAgent db (msg_to msg)")
        case None
        with Some Valid True assms show ?thesis by (auto simp: post_relay_def)
      next
        case (Some recipient)
        with \<open>resolveAgent hashToken db authHeader = Some auth\<close> Valid True assms
        show ?thesis
          by (auto simp: post_relay_def storeMessage_def split: if_splits)
      qed
    qed
  qed
qed

theorem post_relay_enqueue_witness:
  "post_relay demo_hash ''relay_1'' 1000 test_db (Some ''Bearer tok-a'')
       (Valid (test_message ''sk_a'' ''sk_b'')) ''{...}''
     = (Queued 201 \<lparr>relay_id = ''relay_1'', relay_status = ''queued''\<rparr>, relay_db) \<and>
   resolveAgent demo_hash test_db (Some ''Bearer tok-a'') = Some (''sk_a'', demo_hash ''tok-a'') \<and>
   getAgent test_db ''sk_b'' = Some (test_agent ''sk_b'' ''tok-b'' 0) \<and>
   ''relay_1'' \<notin> set (map row_id (messages_table test_db)) \<and>
   map delivered (messages_table relay_db) = [0] \<and>
   post_relay demo_hash ''relay_2'' 1000 test_db (Some ''Bearer tok-a'')
       (Valid (test_message ''sk_b'' ''sk_c'')) ''{...}''
     = (Refused (err UNAUTHORIZED ''Token does not match sender'' 403), test_db) \<and>
   post_relay demo_hash ''relay_2'' 1000 test_db (Some ''Bearer tok-a'')
       (Valid (test_message ''sk_a'' ''sk_zz'')) ''{...}''
     = (Refused (err AGENT_UNAVAILABLE ''Recipient agent not found'' 404), test_db)"
proof -
  have h: "post_relay demo_hash ''relay_1'' 1000 test_db (Some ''Bearer tok-a'')
       (Valid (test_message ''sk_a'' ''sk_b'')) ''{...}''
     = (Queued 201 \<lparr>relay_id = ''relay_1'', relay_status = ''queued''\<rparr>, relay_db)"
    by code_simp
  have r: "resolveAgent demo_hash test_db (Some ''Bearer tok-a'') = Some (''sk_a'', demo_hash ''tok-a'')"
    by code_simp
  have g: "getAgent test_db ''sk_b'' = Some (test_agent ''sk_b'' ''tok-b'' 0)" by code_simp
  have n: "''relay_1'' \<notin> set (map row_id (messages_table test_db))" by code_simp
  have d: "map delivered (messages_table relay_db) = [0]" by code_simp
  have h2: "post_relay demo_hash ''relay_2'' 1000 test_db (Some ''Bearer tok-a'')
       (Valid (test_message ''sk_b'' ''sk_c'')) ''{...}''
     = (Refused (err UNAUTHORIZED ''Token does not match sender'' 403),
        snd (post_relay demo_hash ''relay_2'' 1000 test_db (Some ''Bearer tok-a'')
       (Valid (test_message ''sk_b'' ''sk_c'')) ''{...}''))"
    by code_simp
  have h3: "post_relay demo_hash ''relay_2'' 1000 test_db (Some ''Bearer tok-a'')
       (Valid (test_message ''sk_a'' ''sk_zz'')) ''{...}''
     = (Refused (err AGENT_UNAVAILABLE ''Recipient agent not found'' 404),
        snd (post_relay demo_hash ''relay_2'' 1000 test_db (Some ''Bearer tok-a'')
       (Valid (test_message ''sk_a'' ''sk_zz'')) ''{...}''))"
    by code_simp
  from post_relay_enqueue[OF h2] have u2: "snd (post_relay demo_hash ''relay_2'' 1000 test_db
       (Some ''Bearer tok-a'') (Valid (test_message ''sk_b'' ''sk_c'')) ''{...}'') = test_db"
    by simp
  from post_relay_enqueue[OF h3] have u3: "snd (post_relay demo_hash ''relay_2'' 1000 test_db
       (Some ''Bearer tok-a'') (Valid (test_message ''sk_a'' ''sk_zz'')) ''{...}'') = test_db"
    by simp
  note post_relay_enqueue[OF h]
  with h r g n d h2 h3 u2 u3 show ?thesis by simp
qed

text \<open>
  C3. Acknowledging an entry that is already delivered is to report not-found. On the
  code, agent b acknowledges the entry addressed to it and receives 200; the entry is
  then delivered; b acknowledges the same entry again and receives 200 again, not the
  404 whose message reads \<^verbatim>\<open>Message not found or already acknowledged\<close>. An identifier
  that does not exist does report 404.
\<close>

theorem second_ack_reports_success:
  "fst (post_relay_ack demo_hash relay_db (Some ''Bearer tok-b'') ''relay_1'')
     = Inr (200, ''acknowledged'') \<and>
   map delivered (messages_table
       (snd (post_relay_ack demo_hash relay_db (Some ''Bearer tok-b'') ''relay_1''))) = [1] \<and>
   fst (post_relay_ack demo_hash
          (snd (post_relay_ack demo_hash relay_db (Some ''Bearer tok-b'') ''relay_1''))
          (Some ''Bearer tok-b'') ''relay_1'')
     = Inr (200, ''acknowledged'') \<and>
   fst (post_relay_ack demo_hash relay_db (Some ''Bearer tok-b'') ''relay_2'')
     = Inl (err INVALID_MESSAGE ''Message not found or already acknowledged'' 404)"
  by code_simp

text \<open>
  C4. Search results are to be ordered by \<^verbatim>\<open>agent_id\<close> for each store. The in-memory
  store lists its \<^verbatim>\<open>Map\<close> in insertion order and never sorts: with b registered
  before a, a search returns b before a, which is not ascending, while the SQLite store
  returns the same three agents in ascending order.
\<close>

theorem mem_search_insertion_order:
  "search base64_encode base64_decode test_store (test_query 20 None)
     = Some \<lparr>agents = [test_card ''sk_b'', test_card ''sk_a'', test_card ''sk_c''],
              next_cursor = None\<rparr> \<and>
   \<not> sorted (map agent_id [test_card ''sk_b'', test_card ''sk_a'', test_card ''sk_c'']) \<and>
   searchAgents base64_encode base64_decode test_db (test_query 20 None)
     = Some \<lparr>agents = [test_card ''sk_a'', test_card ''sk_b'', test_card ''sk_c''],
              next_cursor = None\<rparr>"
  by code_simp

text \<open>
  C5. For a store in a state its operations produce, a cursor encoding that round-trips
  on the identifiers held, and a limit of at least 1: requesting pages while threading
  the returned cursor ends within one more request than there are records, and the
  pages, concatenated, are exactly the agents of a single query with the same filter
  whose limit exceeds the number of records; no agent occurs twice; every page but the
  last is full and the last is shorter than the limit. Of any reply, a page shorter
  than the limit carries no cursor, and a cursor is the encoding of the
  \<^verbatim>\<open>agent_id\<close> of the last agent of its page. In both stores.
\<close>

theorem pagination_partitions_search:
  assumes "store_ok s" and "db_ok db"
    and "codec_ok enc dec (map fst s)" and "codec_ok enc dec (map row_key (agents_table db))"
    and "0 < limit query"
  shows "(\<exists>every pages.
            search enc dec s (query\<lparr>cursor := None, limit := Suc (count s)\<rparr>)
              = Some \<lparr>agents = every, next_cursor = None\<rparr> \<and>
            thread_pages (Suc (count s)) (search enc dec s) (query\<lparr>cursor := None\<rparr>) = Some pages \<and>
            concat pages = every \<and> distinct (map agent_id (concat pages)) \<and>
            (\<forall>p \<in> set (butlast pages). length p = limit query) \<and>
            length (last pages) < limit query) \<and>
         (\<exists>every pages.
            searchAgents enc dec db (query\<lparr>cursor := None, limit := Suc (countAgents db)\<rparr>)
              = Some \<lparr>agents = every, next_cursor = None\<rparr> \<and>
            thread_pages (Suc (countAgents db)) (searchAgents enc dec db) (query\<lparr>cursor := None\<rparr>)
              = Some pages \<and>
            concat pages = every \<and> distinct (map agent_id (concat pages)) \<and>
            (\<forall>p \<in> set (butlast pages). length p = limit query) \<and>
            length (last pages) < limit query) \<and>
         (\<forall>qq r. search enc dec s qq = Some r \<longrightarrow>
            (length (agents r) < limit qq \<longrightarrow> next_cursor r = None) \<and>
            (\<forall>c. next_cursor r = Some c \<longrightarrow>
               length (agents r) = limit qq \<and> agents r \<noteq> [] \<and>
               c = enc (agent_id (last (agents r))))) \<and>
         (\<forall>qq r. searchAgents enc dec db qq = Some r \<longrightarrow>
            (length (agents r) < limit qq \<longrightarrow> next_cursor r = None) \<and>
            (\<forall>c. next_cursor r = Some c \<longrightarrow>
               length (agents r) = limit qq \<and> agents r \<noteq> [] \<and>
               c = enc (agent_id (last (agents r)))))"
proof -
  let ?m = "map (\<lambda>e. card (snd e)) s"
  let ?d = "map card (sort_key row_key (agents_table db))"
  have sm: "search enc dec s = (\<lambda>qq. search_cards enc dec qq ?m)"
    by (rule ext) (simp add: search_def)
  have sd: "searchAgents enc dec db = (\<lambda>qq. search_cards enc dec qq ?d)"
    by (rule ext) (simp add: searchAgents_def)
  have im: "map agent_id ?m = map fst s" by (rule store_listing_ids[OF assms(1)])
  have id: "map agent_id ?d = map row_key (sort_key row_key (agents_table db))"
    by (rule db_listing_ids)
  have dm: "distinct (map agent_id ?m)"
    unfolding im using assms(1) by (simp add: store_ok_def)
  have dd: "distinct (map agent_id ?d)"
    unfolding id using assms(2) by (intro db_listing_distinct) (simp add: db_ok_def)
  have cm: "codec_ok enc dec (map agent_id ?m)"
    unfolding im by (rule assms(3))
  have cd: "codec_ok enc dec (map agent_id ?d)"
    unfolding id by (rule codec_ok_subset[OF assms(4)]) simp
  have lm: "length ?m < Suc (count s)" by (simp add: count_def)
  have ld: "length ?d < Suc (countAgents db)" by (simp add: countAgents_def)
  have "\<exists>every pages.
            search enc dec s (query\<lparr>cursor := None, limit := Suc (count s)\<rparr>)
              = Some \<lparr>agents = every, next_cursor = None\<rparr> \<and>
            thread_pages (Suc (count s)) (search enc dec s) (query\<lparr>cursor := None\<rparr>) = Some pages \<and>
            concat pages = every \<and> distinct (map agent_id (concat pages)) \<and>
            (\<forall>p \<in> set (butlast pages). length p = limit query) \<and>
            length (last pages) < limit query"
    unfolding sm by (rule search_cards_pagination[OF dm cm assms(5) lm lm])
  moreover have "\<exists>every pages.
            searchAgents enc dec db (query\<lparr>cursor := None, limit := Suc (countAgents db)\<rparr>)
              = Some \<lparr>agents = every, next_cursor = None\<rparr> \<and>
            thread_pages (Suc (countAgents db)) (searchAgents enc dec db) (query\<lparr>cursor := None\<rparr>)
              = Some pages \<and>
            concat pages = every \<and> distinct (map agent_id (concat pages)) \<and>
            (\<forall>p \<in> set (butlast pages). length p = limit query) \<and>
            length (last pages) < limit query"
    unfolding sd by (rule search_cards_pagination[OF dd cd assms(5) ld ld])
  moreover have "\<forall>qq r. search enc dec s qq = Some r \<longrightarrow>
            (length (agents r) < limit qq \<longrightarrow> next_cursor r = None) \<and>
            (\<forall>c. next_cursor r = Some c \<longrightarrow>
               length (agents r) = limit qq \<and> agents r \<noteq> [] \<and>
               c = enc (agent_id (last (agents r))))"
    unfolding search_def using search_cards_shape by blast
  moreover have "\<forall>qq r. searchAgents enc dec db qq = Some r \<longrightarrow>
            (length (agents r) < limit qq \<longrightarrow> next_cursor r = None) \<and>
            (\<forall>c. next_cursor r = Some c \<longrightarrow>
               length (agents r) = limit qq \<and> agents r \<noteq> [] \<and>
               c = enc (agent_id (last (agents r))))"
    unfolding searchAgents_def using search_cards_shape by blast
  ultimately show ?thesis by (intro conjI)
qed

theorem pagination_partitions_search_witness:
  "store_ok test_store \<and> db_ok test_db \<and>
   codec_ok base64_encode base64_decode (map fst test_store) \<and>
   codec_ok base64_encode base64_decode (map row_key (agents_table test_db)) \<and>
   0 < limit (test_query 1 None) \<and>
   thread_pages 4 (search base64_encode base64_decode test_store) (test_query 1 None)
     = Some [[test_card ''sk_b''], [test_card ''sk_a''], [test_card ''sk_c''], []] \<and>
   thread_pages 4 (searchAgents base64_encode base64_decode test_db) (test_query 1 None)
     = Some [[test_card ''sk_a''], [test_card ''sk_b''], [test_card ''sk_c''], []] \<and>
   search base64_encode base64_decode test_store (test_query 4 None)
     = Some \<lparr>agents = [test_card ''sk_b'', test_card ''sk_a'', test_card ''sk_c''],
              next_cursor = None\<rparr> \<and>
   (\<exists>every pages.
      searchAgents base64_encode base64_decode test_db
          ((test_query 1 None)\<lparr>cursor := None, limit := Suc (countAgents test_db)\<rparr>)
        = Some \<lparr>agents = every, next_cursor = None\<rparr> \<and>
      thread_pages (Suc (countAgents test_db)) (searchAgents base64_encode base64_decode test_db)
          ((test_query 1 None)\<lparr>cursor := None\<rparr>) = Some pages \<and>
      concat pages = every \<and> distinct (map agent_id (concat pages)) \<and>
      (\<forall>p \<in> set (butlast pages). length p = limit (test_query 1 None)) \<and>
      length (last pages) < limit (test_query 1 None))"
proof -
  have h1: "store_ok test_store" by code_simp
  have h2: "db_ok test_db" by code_simp
  have h3: "codec_ok base64_encode base64_decode (map fst test_store)" by code_simp
  have h4: "codec_ok base64_encode base64_decode (map row_key (agents_table test_db))"
    by code_simp
  have h5: "0 < limit (test_query 1 None)" by code_simp
  have e1: "thread_pages 4 (search base64_encode base64_decode test_store) (test_query 1 None)
     = Some [[test_card ''sk_b''], [test_card ''sk_a''], [test_card ''sk_c''], []]"
    by code_simp
  have e2: "thread_pages 4 (searchAgents base64_encode base64_decode test_db) (test_query 1 None)
     = Some [[test_card ''sk_a''], [test_card ''sk_b''], [test_card ''sk_c''], []]"
    by code_simp
  have e3: "search base64_encode base64_decode test_store (test_query 4 None)
     = Some \<lparr>agents = [test_card ''sk_b'', test_card ''sk_a'', test_card ''sk_c''],
              next_cursor = None\<rparr>"
    by code_simp
  from pagination_partitions_search[OF h1 h2 h3 h4 h5]
  have t: "\<exists>every pages.
      searchAgents base64_encode base64_decode test_db
          ((test_query 1 None)\<lparr>cursor := None, limit := Suc (countAgents test_db)\<rparr>)
        = Some \<lparr>agents = every, next_cursor = None\<rparr> \<and>
      thread_pages (Suc (countAgents test_db)) (searchAgents base64_encode base64_decode test_db)
          ((test_query 1 None)\<lparr>cursor := None\<rparr>) = Some pages \<and>
      concat pages = every \<and> distinct (map agent_id (concat pages)) \<and>
      (\<forall>p \<in> set (butlast pages). length p = limit (test_query 1 None)) \<and>
      length (last pages) < limit (test_query 1 None)"
    by (elim conjE)
  show ?thesis by (intro conjI h1 h2 h3 h4 h5 e1 e2 e3 t)
qed

text \<open>
  C6. An update or a delete of an existing record with a bearer token whose hash is not
  the stored \<^verbatim>\<open>token_hash\<close> is refused with the code \<^verbatim>\<open>UNAUTHORIZED\<close> (status 403) and
  leaves the store as it was; a request for an identifier that has no record is refused
  with the code \<^verbatim>\<open>AGENT_UNAVAILABLE\<close> (status 404); the two codes differ. This holds for
  the handlers on the in-memory store and for those on the SQLite store.
\<close>

theorem mismatched_credential_is_unauthorized:
  assumes "bearer authHeader = Some token"
    and "get store i = Some stored" and "token_hash stored \<noteq> hashToken token"
    and "getAgent db i = Some row" and "token_hash row \<noteq> hashToken token"
  shows "mem_put_agent hashToken now store i authHeader body
           = (Inl (err UNAUTHORIZED ''Invalid token'' 403), store) \<and>
         mem_delete_agent hashToken store i authHeader
           = (Inl (err UNAUTHORIZED ''Invalid token'' 403), store) \<and>
         put_agent hashToken now db i authHeader body
           = (Inl (err UNAUTHORIZED ''Invalid token'' 403), db) \<and>
         delete_agent hashToken db i authHeader
           = (Inl (err UNAUTHORIZED ''Invalid token'' 403), db) \<and>
         (\<forall>j. get store j = None \<longrightarrow>
            mem_put_agent hashToken now store j authHeader body
              = (Inl (err AGENT_UNAVAILABLE ''Agent not found'' 404), store) \<and>
            mem_delete_agent hashToken store j authHeader
              = (Inl (err AGENT_UNAVAILABLE ''Agent not found'' 404), store)) \<and>
         (\<forall>j. getAgent db j = None \<longrightarrow>
            put_agent hashToken now db j authHeader body
              = (Inl (err AGENT_UNAVAILABLE ''Agent not found'' 404), db) \<and>
            delete_agent hashToken db j authHeader
              = (Inl (err AGENT_UNAVAILABLE ''Agent not found'' 404), db)) \<and>
         code (err UNAUTHORIZED ''Invalid token'' 403)
           \<noteq> code (err AGENT_UNAVAILABLE ''Agent not found'' 404)"
  using assms
  by (simp add: mem_put_agent_def mem_delete_agent_def put_agent_def delete_agent_def err_def)

theorem mismatched_credential_is_unauthorized_witness:
  "bearer (Some ''Bearer wrong'') = Some ''wrong'' \<and>
   get test_store ''sk_a'' = Some (test_agent ''sk_a'' ''tok-a'' 0) \<and>
   token_hash (test_agent ''sk_a'' ''tok-a'' 0) \<noteq> demo_hash ''wrong'' \<and>
   getAgent test_db ''sk_a'' = Some (test_agent ''sk_a'' ''tok-a'' 0) \<and>
   mem_put_agent demo_hash 5000 test_store ''sk_a'' (Some ''Bearer wrong'') (Valid (test_card ''sk_a''))
     = (Inl (err UNAUTHORIZED ''Invalid token'' 403), test_store) \<and>
   mem_delete_agent demo_hash test_store ''sk_a'' (Some ''Bearer wrong'')
     = (Inl (err UNAUTHORIZED ''Invalid token'' 403), test_store) \<and>
   put_agent demo_hash 5000 test_db ''sk_a'' (Some ''Bearer wrong'') (Valid (test_card ''sk_a''))
     = (Inl (err UNAUTHORIZED ''Invalid token'' 403), test_db) \<and>
   delete_agent demo_hash test_db ''sk_a'' (Some ''Bearer wrong'')
     = (Inl (err UNAUTHORIZED ''Invalid token'' 403), test_db)"
proof -
  have h1: "bearer (Some ''Bearer wrong'') = Some ''wrong''" by code_simp
  have h2: "get test_store ''sk_a'' = Some (test_agent ''sk_a'' ''tok-a'' 0)" by code_simp
  have h3: "token_hash (test_agent ''sk_a'' ''tok-a'' 0) \<noteq> demo_hash ''wrong''" by code_simp
  have h4: "getAgent test_db ''sk_a'' = Some (test_agent ''sk_a'' ''tok-a'' 0)" by code_simp
  note mismatched_credential_is_unauthorized[where hashToken = demo_hash and now = 5000
      and body = "Valid (test_card ''sk_a'')", OF h1 h2 h3 h4 h3]
  with h1 h2 h3 h4 show ?thesis by blast
qed

text \<open>
  C7. After a successful update the record filed under the identifier of the request
  carries the submitted card with its \<^verbatim>\<open>agent_id\<close> set to that identifier (whatever
  the card said), the \<^verbatim>\<open>registered_at\<close> and the \<^verbatim>\<open>token_hash\<close> of the record it
  replaces, and an \<^verbatim>\<open>expires_at\<close> thirty days after the time of the update; the
  records of the other identifiers are read back unchanged. In both stores.
\<close>

theorem update_preserves_identity:
  assumes "mem_put_agent hashToken now store i authHeader body = (Inr reply, store')"
    and "put_agent hashToken now db i authHeader body = (Inr reply', db')"
  shows "(\<exists>stored parsed.
            get store i = Some stored \<and> body = Valid parsed \<and>
            get store' i = Some \<lparr>card = parsed\<lparr>agent_id := i\<rparr>,
                                  registered_at = registered_at stored,
                                  expires_at = now + thirty_days,
                                  token_hash = token_hash stored\<rparr> \<and>
            reply = (200, \<lparr>upd_agent_id = i, upd_expires_at = now + thirty_days\<rparr>)) \<and>
         (\<forall>j. j \<noteq> i \<longrightarrow> get store' j = get store j) \<and>
         (\<exists>row parsed.
            getAgent db i = Some row \<and> body = Valid parsed \<and>
            getAgent db' i = Some \<lparr>card = parsed\<lparr>agent_id := i\<rparr>,
                                   registered_at = registered_at row,
                                   expires_at = now + thirty_days,
                                   token_hash = token_hash row\<rparr> \<and>
            reply' = (200, \<lparr>upd_agent_id = i, upd_expires_at = now + thirty_days\<rparr>)) \<and>
         (\<forall>j. j \<noteq> i \<longrightarrow> getAgent db' j = getAgent db j) \<and>
         thirty_days = 30 * 24 * 60 * 60 * 1000"
proof -
  from assms(1) obtain token stored parsed where
    m: "bearer authHeader = Some token" "get store i = Some stored" "body = Valid parsed"
       "reply = (200, \<lparr>upd_agent_id = i, upd_expires_at = now + thirty_days\<rparr>)"
       "store' = put store \<lparr>card = parsed\<lparr>agent_id := i\<rparr>, registered_at = registered_at stored,
                            expires_at = now + thirty_days, token_hash = token_hash stored\<rparr>"
    by (auto simp: mem_put_agent_def Let_def split: option.splits if_splits Body.splits)
  from assms(2) obtain token' row parsed' where
    d: "bearer authHeader = Some token'" "getAgent db i = Some row" "body = Valid parsed'"
       "reply' = (200, \<lparr>upd_agent_id = i, upd_expires_at = now + thirty_days\<rparr>)"
       "db' = putAgent db \<lparr>card = parsed'\<lparr>agent_id := i\<rparr>, registered_at = registered_at row,
                            expires_at = now + thirty_days, token_hash = token_hash row\<rparr>"
    by (auto simp: put_agent_def Let_def split: option.splits if_splits Body.splits)
  let ?a = "\<lparr>card = parsed\<lparr>agent_id := i\<rparr>, registered_at = registered_at stored,
             expires_at = now + thirty_days, token_hash = token_hash stored\<rparr>"
  let ?b = "\<lparr>card = parsed'\<lparr>agent_id := i\<rparr>, registered_at = registered_at row,
             expires_at = now + thirty_days, token_hash = token_hash row\<rparr>"
  have ka: "agent_id (card ?a) = i" and kb: "row_key ?b = i" by (simp_all add: row_key_def)
  have 1: "get store' i = Some ?a" using get_put_same[of store ?a] m(5) ka by simp
  have 2: "\<forall>j. j \<noteq> i \<longrightarrow> get store' j = get store j"
    using get_put_other[of _ ?a store] m(5) ka by simp
  have 3: "getAgent db' i = Some ?b" using getAgent_putAgent_same[of db ?b] d(5) kb by simp
  have 4: "\<forall>j. j \<noteq> i \<longrightarrow> getAgent db' j = getAgent db j"
    using getAgent_putAgent_other[of _ ?b db] d(5) kb by simp
  from m d 1 2 3 4 show ?thesis by (simp add: thirty_days_def)
qed

theorem update_preserves_identity_witness:
  "mem_put_agent demo_hash 5000 test_store ''sk_a'' (Some ''Bearer tok-a'') (Valid (test_card ''sk_zz''))
     = (Inr (200, \<lparr>upd_agent_id = ''sk_a'', upd_expires_at = 2592005000\<rparr>),
        snd (mem_put_agent demo_hash 5000 test_store ''sk_a'' (Some ''Bearer tok-a'')
               (Valid (test_card ''sk_zz'')))) \<and>
   put_agent demo_hash 5000 test_db ''sk_a'' (Some ''Bearer tok-a'') (Valid (test_card ''sk_zz''))
     = (Inr (200, \<lparr>upd_agent_id = ''sk_a'', upd_expires_at = 2592005000\<rparr>),
        snd (put_agent demo_hash 5000 test_db ''sk_a'' (Some ''Bearer tok-a'')
               (Valid (test_card ''sk_zz'')))) \<and>
   get (snd (mem_put_agent demo_hash 5000 test_store ''sk_a'' (Some ''Bearer tok-a'')
               (Valid (test_card ''sk_zz'')))) ''sk_a''
     = Some \<lparr>card = test_card ''sk_a'', registered_at = 0, expires_at = 2592005000,
              token_hash = demo_hash ''tok-a''\<rparr> \<and>
   getAgent (snd (put_agent demo_hash 5000 test_db ''sk_a'' (Some ''Bearer tok-a'')
               (Valid (test_card ''sk_zz'')))) ''sk_a''
     = Some \<lparr>card = test_card ''sk_a'', registered_at = 0, expires_at = 2592005000,
              token_hash = demo_hash ''tok-a''\<rparr>"
proof -
  let ?m = "mem_put_agent demo_hash 5000 test_store ''sk_a'' (Some ''Bearer tok-a'')
              (Valid (test_card ''sk_zz''))"
  let ?d = "put_agent demo_hash 5000 test_db ''sk_a'' (Some ''Bearer tok-a'')
              (Valid (test_card ''sk_zz''))"
  have h1: "?m = (Inr (200, \<lparr>upd_agent_id = ''sk_a'', upd_expires_at = 2592005000\<rparr>), snd ?m)"
    by code_simp
  have h2: "?d = (Inr (200, \<lparr>upd_agent_id = ''sk_a'', upd_expires_at = 2592005000\<rparr>), snd ?d)"
    by code_simp
  have g1: "get test_store ''sk_a'' = Some (test_agent ''sk_a'' ''tok-a'' 0)" by code_simp
  have g2: "getAgent test_db ''sk_a'' = Some (test_agent ''sk_a'' ''tok-a'' 0)" by code_simp
  have c: "(test_card ''sk_zz'')\<lparr>agent_id := ''sk_a''\<rparr> = test_card ''sk_a''"
    by (simp add: test_card_def)
  note update_preserves_identity[OF h1 h2]
  with g1 g2 c have
    "get (snd ?m) ''sk_a'' = Some \<lparr>card = test_card ''sk_a'', registered_at = 0,
        expires_at = 5000 + thirty_days, token_hash = demo_hash ''tok-a''\<rparr>"
    "getAgent (snd ?d) ''sk_a'' = Some \<lparr>card = test_card ''sk_a'', registered_at = 0,
        expires_at = 5000 + thirty_days, token_hash = demo_hash ''tok-a''\<rparr>"
    by (auto simp: test_agent_def)
  with h1 h2 show ?thesis by (simp add: thirty_days_def)
qed

text \<open>
  C8. A registration with a bearer token and a valid card replies 201 with the
  generated identifier, and stores the card under that identifier whatever
  \<^verbatim>\<open>agent_id\<close> the card supplied, together with the hash of the token, the time of
  registration and an expiry exactly thirty days (2592000000 ms) later. The store
  keeps its keys unique, and the table holds exactly one row with the new identifier.
  In both stores.
\<close>

theorem register_issues_server_identity:
  assumes "bearer authHeader = Some token"
  shows "mem_post_agents hashToken newId now store authHeader (Valid parsed)
           = (Inr (201, \<lparr>reg_agent_id = newId, reg_registered_at = now,
                          reg_expires_at = now + thirty_days\<rparr>),
              put store \<lparr>card = parsed\<lparr>agent_id := newId\<rparr>, registered_at = now,
                         expires_at = now + thirty_days, token_hash = hashToken token\<rparr>) \<and>
         get (snd (mem_post_agents hashToken newId now store authHeader (Valid parsed))) newId
           = Some \<lparr>card = parsed\<lparr>agent_id := newId\<rparr>, registered_at = now,
                    expires_at = now + thirty_days, token_hash = hashToken token\<rparr> \<and>
         mem_post_agents hashToken newId now store authHeader (Valid (parsed\<lparr>agent_id := supplied\<rparr>))
           = mem_post_agents hashToken newId now store authHeader (Valid parsed) \<and>
         (store_ok store \<longrightarrow>
            store_ok (snd (mem_post_agents hashToken newId now store authHeader (Valid parsed)))) \<and>
         post_agents hashToken newId now db authHeader (Valid parsed)
           = (Inr (201, \<lparr>reg_agent_id = newId, reg_registered_at = now,
                          reg_expires_at = now + thirty_days\<rparr>),
              putAgent db \<lparr>card = parsed\<lparr>agent_id := newId\<rparr>, registered_at = now,
                           expires_at = now + thirty_days, token_hash = hashToken token\<rparr>) \<and>
         getAgent (snd (post_agents hashToken newId now db authHeader (Valid parsed))) newId
           = Some \<lparr>card = parsed\<lparr>agent_id := newId\<rparr>, registered_at = now,
                    expires_at = now + thirty_days, token_hash = hashToken token\<rparr> \<and>
         post_agents hashToken newId now db authHeader (Valid (parsed\<lparr>agent_id := supplied\<rparr>))
           = post_agents hashToken newId now db authHeader (Valid parsed) \<and>
         (db_ok db \<longrightarrow>
            db_ok (snd (post_agents hashToken newId now db authHeader (Valid parsed)))) \<and>
         filter (\<lambda>r. row_key r = newId)
            (agents_table (snd (post_agents hashToken newId now db authHeader (Valid parsed))))
           = [\<lparr>card = parsed\<lparr>agent_id := newId\<rparr>, registered_at = now,
               expires_at = now + thirty_days, token_hash = hashToken token\<rparr>] \<and>
         thirty_days = 30 * 24 * 60 * 60 * 1000"
proof -
  let ?a = "\<lparr>card = parsed\<lparr>agent_id := newId\<rparr>, registered_at = now,
             expires_at = now + thirty_days, token_hash = hashToken token\<rparr>"
  have k: "agent_id (card ?a) = newId" "row_key ?a = newId" by (simp_all add: row_key_def)
  have m: "mem_post_agents hashToken newId now store authHeader (Valid parsed)
      = (Inr (201, \<lparr>reg_agent_id = newId, reg_registered_at = now,
                     reg_expires_at = now + thirty_days\<rparr>), put store ?a)"
    using assms by (simp add: mem_post_agents_def Let_def)
  have m': "mem_post_agents hashToken newId now store authHeader (Valid (parsed\<lparr>agent_id := supplied\<rparr>))
      = mem_post_agents hashToken newId now store authHeader (Valid parsed)"
    using assms by (simp add: mem_post_agents_def Let_def)
  have d: "post_agents hashToken newId now db authHeader (Valid parsed)
      = (Inr (201, \<lparr>reg_agent_id = newId, reg_registered_at = now,
                     reg_expires_at = now + thirty_days\<rparr>), putAgent db ?a)"
    using assms by (simp add: post_agents_def Let_def)
  have d': "post_agents hashToken newId now db authHeader (Valid (parsed\<lparr>agent_id := supplied\<rparr>))
      = post_agents hashToken newId now db authHeader (Valid parsed)"
    using assms by (simp add: post_agents_def Let_def)
  have g: "get (put store ?a) newId = Some ?a" using get_put_same[of store ?a] k by simp
  have g': "getAgent (putAgent db ?a) newId = Some ?a"
    using getAgent_putAgent_same[of db ?a] k by simp
  have o: "store_ok store \<longrightarrow> store_ok (put store ?a)" by (simp add: store_ok_put)
  have o': "db_ok db \<longrightarrow> db_ok (putAgent db ?a)" by (simp add: db_ok_putAgent)
  have f: "filter (\<lambda>r. row_key r = newId) (agents_table (putAgent db ?a)) = [?a]"
    using putAgent_one_row[of ?a db] k by simp
  from g g' o o' f show ?thesis
    by (simp add: m m' d d' thirty_days_def)
qed

theorem register_issues_server_identity_witness:
  "bearer (Some ''Bearer tok-d'') = Some ''tok-d'' \<and>
   mem_post_agents demo_hash ''sk_d'' 7000 test_store (Some ''Bearer tok-d'') (Valid (test_card ''sk_mine''))
     = (Inr (201, \<lparr>reg_agent_id = ''sk_d'', reg_registered_at = 7000,
                    reg_expires_at = 2592007000\<rparr>),
        put test_store (test_agent ''sk_d'' ''tok-d'' 7000)) \<and>
   post_agents demo_hash ''sk_d'' 7000 test_db (Some ''Bearer tok-d'') (Valid (test_card ''sk_mine''))
     = (Inr (201, \<lparr>reg_agent_id = ''sk_d'', reg_registered_at = 7000,
                    reg_expires_at = 2592007000\<rparr>),
        putAgent test_db (test_agent ''sk_d'' ''tok-d'' 7000))"
proof -
  have h: "bearer (Some ''Bearer tok-d'') = Some ''tok-d''" by code_simp
  have c: "(test_card ''sk_mine'')\<lparr>agent_id := ''sk_d''\<rparr> = test_card ''sk_d''"
    by (simp add: test_card_def)
  note register_issues_server_identity[where hashToken = demo_hash and newId = "''sk_d''"
      and now = 7000 and store = test_store and db = test_db
      and parsed = "test_card ''sk_mine''", OF h]
  with h c show ?thesis by (simp add: test_agent_def thirty_days_def)
qed

text \<open>
  C9. Expiry is not consulted on the read path. Rewriting the \<^verbatim>\<open>expires_at\<close> of every
  record by an arbitrary function, to the past or to the future, changes what \<open>get\<close>
  returns in that field only, and changes neither the reply of
  \<^verbatim>\<open>GET /v1/agents/:id\<close> nor any search result; a record that is expired at some time
  is returned like any other. In both stores.
\<close>

theorem expiry_never_consulted:
  "get (restamp_store f s) i = map_option (restamp f) (get s i) \<and>
   getAgent (restamp_db f db) i = map_option (restamp f) (getAgent db i) \<and>
   mem_get_agent (restamp_store f s) i = mem_get_agent s i \<and>
   get_agent (restamp_db f db) i = get_agent db i \<and>
   search enc dec (restamp_store f s) query = search enc dec s query \<and>
   searchAgents enc dec (restamp_db f db) query = searchAgents enc dec db query \<and>
   (\<forall>r now. getAgent db i = Some r \<and> expired now r \<longrightarrow> get_agent db i = Inr (200, card r)) \<and>
   (\<forall>r now. get s i = Some r \<and> expired now r \<longrightarrow> mem_get_agent s i = Inr (200, card r))"
proof -
  have g: "get (restamp_store f s) i = map_option (restamp f) (get s i)"
    by (simp add: get_def restamp_store_def map_of_restamp)
  have g': "getAgent (restamp_db f db) i = map_option (restamp f) (getAgent db i)"
    by (simp add: getAgent_def restamp_db_def find_map_same restamp_keeps)
  have h: "mem_get_agent (restamp_store f s) i = mem_get_agent s i"
    by (cases "get s i") (simp_all add: mem_get_agent_def g restamp_keeps)
  have h': "get_agent (restamp_db f db) i = get_agent db i"
    by (cases "getAgent db i") (simp_all add: get_agent_def g' restamp_keeps)
  have "map (\<lambda>e. card (snd e)) (restamp_store f s) = map (\<lambda>e. card (snd e)) s"
    by (simp add: restamp_store_def restamp_keeps comp_def)
  then have s: "search enc dec (restamp_store f s) query = search enc dec s query"
    by (simp add: search_def)
  have "map card (sort_key row_key (map (restamp f) (agents_table db)))
      = map card (sort_key row_key (agents_table db))"
    by (simp add: sort_key_map_same restamp_keeps comp_def)
  then have s': "searchAgents enc dec (restamp_db f db) query = searchAgents enc dec db query"
    by (simp add: searchAgents_def restamp_db_def)
  from g g' h h' s s' show ?thesis
    by (simp add: get_agent_def mem_get_agent_def)
qed

theorem expiry_never_consulted_witness:
  "getAgent test_db ''sk_a'' = Some (test_agent ''sk_a'' ''tok-a'' 0) \<and>
   expired 3000000000 (test_agent ''sk_a'' ''tok-a'' 0) \<and>
   get test_store ''sk_a'' = Some (test_agent ''sk_a'' ''tok-a'' 0) \<and>
   get_agent test_db ''sk_a'' = Inr (200, test_card ''sk_a'') \<and>
   mem_get_agent test_store ''sk_a'' = Inr (200, test_card ''sk_a'') \<and>
   searchAgents base64_encode base64_decode (restamp_db (\<lambda>r. 0) test_db) (test_query 20 None)
     = searchAgents base64_encode base64_decode test_db (test_query 20 None)"
proof -
  have h1: "getAgent test_db ''sk_a'' = Some (test_agent ''sk_a'' ''tok-a'' 0)" by code_simp
  have h2: "expired 3000000000 (test_agent ''sk_a'' ''tok-a'' 0)" by code_simp
  have h3: "get test_store ''sk_a'' = Some (test_agent ''sk_a'' ''tok-a'' 0)" by code_simp
  have c: "card (test_agent ''sk_a'' ''tok-a'' 0) = test_card ''sk_a''"
    by (simp add: test_agent_def)
  note expiry_never_consulted[where db = test_db and s = test_store and i = "''sk_a''"
      and f = "\<lambda>r. 0" and enc = base64_encode and dec = base64_decode
      and query = "test_query 20 None"]
  with h1 h2 h3 c show ?thesis by metis
qed

text \<open>
  C10. A search whose cursor decodes to an \<^verbatim>\<open>agent_id\<close> that does not occur in the
  filtered result list returns what the same search returns without cursor: it
  restarts from the beginning of the list, in both stores. In the example the agent
  that closed the first page is deleted before the second request, and the second
  page repeats the first agent of the first page.
\<close>

theorem unknown_cursor_restarts:
  assumes "dec c \<notin> agent_id ` set (apply_filters query (map (\<lambda>e. card (snd e)) s))"
    and "dec c \<notin> agent_id ` set (apply_filters query (map card (sort_key row_key (agents_table db))))"
  shows "search enc dec s (query\<lparr>cursor := Some c\<rparr>) = search enc dec s (query\<lparr>cursor := None\<rparr>) \<and>
         searchAgents enc dec db (query\<lparr>cursor := Some c\<rparr>)
           = searchAgents enc dec db (query\<lparr>cursor := None\<rparr>)"
  using assms
  by (simp add: search_def searchAgents_def search_cards_def apply_filters_cursor
      apply_cursor_miss apply_cursor_None)

theorem unknown_cursor_restarts_witness:
  "base64_decode ''c2tfYQ=='' \<notin> agent_id ` set (apply_filters (test_query 2 None)
       (map (\<lambda>e. card (snd e)) (fst (delete test_store ''sk_a'')))) \<and>
   base64_decode ''c2tfYQ=='' \<notin> agent_id ` set (apply_filters (test_query 2 None)
       (map card (sort_key row_key (agents_table (fst (deleteAgent test_db ''sk_a'')))))) \<and>
   search base64_encode base64_decode test_store (test_query 2 None)
     = Some \<lparr>agents = [test_card ''sk_b'', test_card ''sk_a''], next_cursor = Some ''c2tfYQ==''\<rparr> \<and>
   search base64_encode base64_decode (fst (delete test_store ''sk_a''))
       ((test_query 2 None)\<lparr>cursor := Some ''c2tfYQ==''\<rparr>)
     = search base64_encode base64_decode (fst (delete test_store ''sk_a''))
       ((test_query 2 None)\<lparr>cursor := None\<rparr>) \<and>
   search base64_encode base64_decode (fst (delete test_store ''sk_a''))
       ((test_query 2 None)\<lparr>cursor := Some ''c2tfYQ==''\<rparr>)
     = Some \<lparr>agents = [test_card ''sk_b'', test_card ''sk_c''], next_cursor = Some ''c2tfYw==''\<rparr>"
proof -
  have h1: "base64_decode ''c2tfYQ=='' \<notin> agent_id ` set (apply_filters (test_query 2 None)
       (map (\<lambda>e. card (snd e)) (fst (delete test_store ''sk_a''))))"
    by code_simp
  have h2: "base64_decode ''c2tfYQ=='' \<notin> agent_id ` set (apply_filters (test_query 2 None)
       (map card (sort_key row_key (agents_table (fst (deleteAgent test_db ''sk_a''))))))"
    by code_simp
  have e1: "search base64_encode base64_decode test_store (test_query 2 None)
     = Some \<lparr>agents = [test_card ''sk_b'', test_card ''sk_a''], next_cursor = Some ''c2tfYQ==''\<rparr>"
    by code_simp
  have e2: "search base64_encode base64_decode (fst (delete test_store ''sk_a''))
       ((test_query 2 None)\<lparr>cursor := None\<rparr>)
     = Some \<lparr>agents = [test_card ''sk_b'', test_card ''sk_c''], next_cursor = Some ''c2tfYw==''\<rparr>"
    by code_simp
  note unknown_cursor_restarts[where dec = base64_decode and enc = base64_encode
      and c = "''c2tfYQ==''" and query = "test_query 2 None"
      and s = "fst (delete test_store ''sk_a'')" and db = "fst (deleteAgent test_db ''sk_a'')",
      OF h1 h2]
  with h1 h2 e1 e2 show ?thesis by simp
qed

end
